theory Spec2Isabelle
  imports Main
begin

section \<open>Data model\<close>

text \<open>
  The analyser (\<^verbatim>\<open>analizador27.py\<close>) has three stages: \<^verbatim>\<open>Tokenizer.tokenize\<close>,
  \<^verbatim>\<open>Parser.parse\<close> and \<^verbatim>\<open>validate_all\<close>. The program is modelled as Python 3 (CPython
  3.11 or later, default settings) runs it: the source text is a \<^verbatim>\<open>str\<close>, a sequence of
  code points. A \<open>char\<close> is a code point from U+0000 to U+00FF and \<open>string\<close> is a text
  over these code points; the character classes \<^verbatim>\<open>\d\<close> and \<^verbatim>\<open>\w\<close>, the line boundaries of
  \<^verbatim>\<open>splitlines\<close> and the white space of \<^verbatim>\<open>strip\<close> are those of Python 3 on this range.

  A token is the pair \<^verbatim>\<open>(type, value)\<close> of the source. The value of a \<^verbatim>\<open>NUMBER\<close> token is
  \<^verbatim>\<open>int(text)\<close> or \<^verbatim>\<open>float(text)\<close>; Python integers are unbounded (\<open>int\<close>), and a float is
  kept as the literal text handed to \<^verbatim>\<open>float\<close> (its rounding to a double is not
  modelled).
\<close>

datatype number = NInt int | NFloat string

datatype token =
    STRING string
  | NUMBER number
  | OPERATOR string
  | IDENTIFIER string

text \<open>
  The values the parser builds. A Python \<^verbatim>\<open>dict\<close> keeps insertion order, so it is an
  association list; blocks (sections) and maps are both dicts. \<^verbatim>\<open>None\<close>, which only
  \<^verbatim>\<open>dict.get\<close> produces, is the \<open>None\<close> of \<open>val option\<close>.
\<close>

datatype val =
    VInt int
  | VFloat string
  | VStr string
  | VBool bool
  | VList "val list"
  | VDict "(string \<times> val) list"

type_synonym dict = "(string \<times> val) list"

text \<open>
  The exceptions. A \<^verbatim>\<open>SyntaxError\<close> carries the template of its message (one constructor
  per \<^verbatim>\<open>raise\<close> in the parser) and the key or name the message cites; the text of the
  offending token that some messages also print is left out.
\<close>

datatype syntax_error =
    Expected_operator string
  | Expected_kv_sep
  | Expected_juego
  | Expected_game_name
  | Game_redeclared string
  | Unclosed_block
  | Expected_identifier
  | Key_redefined string
  | Section_redefined string
  | Expected_assign_or_block string
  | Expected_value
  | Unexpected_value
  | Unclosed_list
  | Unclosed_map
  | Invalid_map_key
  | Duplicate_map_key string

datatype error =
    SyntaxError syntax_error
  | NameError string
  | AttributeError
  | KeyError string
  | TypeError
  | ValueError

record validation_record =
  juego :: string
  valido :: bool
  mensaje :: string

subsection \<open>Dictionaries\<close>

text \<open>
  The symbol table maps each game name to its root block, which
  \<^verbatim>\<open>parse_block_section\<close> always returns as a dict.
\<close>

type_synonym symbol_table = "(string \<times> dict) list"

definition keys :: "(string \<times> 'v) list \<Rightarrow> string list" where
  "keys d = map fst d"

text \<open>\<^verbatim>\<open>k in d\<close>\<close>

definition has_key :: "string \<Rightarrow> (string \<times> 'v) list \<Rightarrow> bool" where
  "has_key k d = (k \<in> set (keys d))"

text \<open>\<^verbatim>\<open>d[k] = v\<close>: an existing key keeps its position, a new key goes last.\<close>

fun dict_set :: "string \<Rightarrow> 'v \<Rightarrow> (string \<times> 'v) list \<Rightarrow> (string \<times> 'v) list" where
  "dict_set k v [] = [(k, v)]"
| "dict_set k v ((k', v') # d) =
     (if k' = k then (k, v) # d else (k', v') # dict_set k v d)"

text \<open>\<^verbatim>\<open>d[k]\<close>\<close>

definition dict_index :: "(string \<times> 'v) list \<Rightarrow> string \<Rightarrow> error + 'v" where
  "dict_index d k = (case map_of d k of None \<Rightarrow> Inl (KeyError k) | Some v \<Rightarrow> Inr v)"

section \<open>Lexer\<close>

subsection \<open>Character classes\<close>

definition dquote :: char where
  "dquote = CHR 0x22"

definition backslash :: char where
  "backslash = CHR 0x5C"

text \<open>\<^verbatim>\<open>\d\<close>: the decimal digits; up to U+00FF these are \<^verbatim>\<open>0\<close> to \<^verbatim>\<open>9\<close>.\<close>

definition is_digit :: "char \<Rightarrow> bool" where
  "is_digit c = (c \<in> set ''0123456789'')"

text \<open>
  \<^verbatim>\<open>\w\<close>: the underscore and the characters that \<^verbatim>\<open>str.isalnum()\<close> accepts. Up to U+00FF
  these are the ASCII letters and digits, U+00AA, U+00B2, U+00B3, U+00B5, U+00B9, U+00BA,
  U+00BC to U+00BE, and U+00C0 to U+00FF without U+00D7 and U+00F7.
\<close>

definition is_word :: "char \<Rightarrow> bool" where
  "is_word c =
     (c \<in> set ''abcdefghijklmnopqrstuvwxyzABCDEFGHIJKLMNOPQRSTUVWXYZ0123456789_''
      \<or> c \<in> set [CHR 0xAA, CHR 0xB2, CHR 0xB3, CHR 0xB5, CHR 0xB9, CHR 0xBA,
                   CHR 0xBC, CHR 0xBD, CHR 0xBE]
      \<or> (0xC0 \<le> (of_char c :: nat) \<and> c \<noteq> CHR 0xD7 \<and> c \<noteq> CHR 0xF7))"

definition is_operator_char :: "char \<Rightarrow> bool" where
  "is_operator_char c = (c \<in> set ''{}[]=,:'')"

text \<open>
  White space as \<^verbatim>\<open>str.strip()\<close> sees it (\<^verbatim>\<open>str.isspace()\<close>): tab, LF, VT, FF, CR, FS, GS,
  RS, US, space, NEL (U+0085) and the no-break space (U+00A0).
\<close>

definition is_space :: "char \<Rightarrow> bool" where
  "is_space c = (c \<in> set [CHR 0x09, CHR 0x0A, CHR 0x0B, CHR 0x0C, CHR 0x0D,
                          CHR 0x1C, CHR 0x1D, CHR 0x1E, CHR 0x1F, CHR 0x20,
                          CHR 0x85, CHR 0xA0])"

text \<open>
  Line boundaries of \<^verbatim>\<open>str.splitlines()\<close>: LF, VT, FF, CR, FS, GS, RS, NEL (U+0085), and
  CR LF as one boundary.
\<close>

definition is_linebreak :: "char \<Rightarrow> bool" where
  "is_linebreak c = (c \<in> set [CHR 0x0A, CHR 0x0B, CHR 0x0C, CHR 0x0D,
                              CHR 0x1C, CHR 0x1D, CHR 0x1E, CHR 0x85])"

subsection \<open>String helpers of the host language\<close>

definition strip :: "string \<Rightarrow> string" where
  "strip s = rev (dropWhile is_space (rev (dropWhile is_space s)))"

text \<open>\<^verbatim>\<open>line.rstrip('\n')\<close>\<close>

definition rstrip_nl :: "string \<Rightarrow> string" where
  "rstrip_nl s = rev (dropWhile (\<lambda>c. c = CHR 0x0A) (rev s))"

text \<open>
  \<^verbatim>\<open>splitlines\<close>: \<open>cur\<close> is the line being read. A final line with no terminator is
  kept when it is not empty.
\<close>

fun splitlines_from :: "string \<Rightarrow> string \<Rightarrow> string list" where
  "splitlines_from cur [] = (if cur = [] then [] else [cur])"
| "splitlines_from cur [c] = (if is_linebreak c then [cur] else [cur @ [c]])"
| "splitlines_from cur (c # d # cs) =
     (if c = CHR 0x0D \<and> d = CHR 0x0A then cur # splitlines_from [] cs
      else if is_linebreak c then cur # splitlines_from [] (d # cs)
      else splitlines_from (cur @ [c]) (d # cs))"

definition splitlines :: "string \<Rightarrow> string list" where
  "splitlines s = splitlines_from [] s"

text \<open>
  \<^verbatim>\<open>int(text)\<close> on a string of decimal digits. The conversion raises \<^verbatim>\<open>ValueError\<close> when
  the text has more digits than \<^verbatim>\<open>sys.int_info.default_max_str_digits\<close>, which is 4300;
  leading zeros count. Otherwise it returns the value of the digits.
\<close>

definition digit_value :: "char \<Rightarrow> int" where
  "digit_value c = int (of_char c) - 48"

definition int_of_digits :: "string \<Rightarrow> int" where
  "int_of_digits ds = foldl (\<lambda>a c. 10 * a + digit_value c) 0 ds"

definition max_str_digits :: nat where
  "max_str_digits = 4300"

definition py_int :: "string \<Rightarrow> error + int" where
  "py_int ds = (if max_str_digits < length ds then Inl ValueError else Inr (int_of_digits ds))"

subsection \<open>\<^verbatim>\<open>Tokenizer._strip_inline_comments\<close>\<close>

text \<open>
  The loop over the characters of the line, with its two flags. The result is the
  characters appended to \<^verbatim>\<open>out\<close>; \<^verbatim>\<open>break\<close> ends the loop at a \<^verbatim>\<open>#\<close> outside a string.
\<close>

fun strip_loop :: "bool \<Rightarrow> bool \<Rightarrow> string \<Rightarrow> string" where
  "strip_loop in_str esc [] = []"
| "strip_loop in_str esc (ch # cs) =
     (if in_str then
        (if esc then ch # strip_loop in_str False cs
         else if ch = backslash then ch # strip_loop in_str True cs
         else if ch = dquote then ch # strip_loop False esc cs
         else ch # strip_loop in_str esc cs)
      else
        (if ch = dquote then ch # strip_loop True esc cs
         else if ch = CHR ''#'' then []
         else ch # strip_loop in_str esc cs))"

definition strip_inline_comments :: "string \<Rightarrow> string" where
  "strip_inline_comments line = strip (strip_loop False False line)"

subsection \<open>The regular expression\<close>

text \<open>
  \<^verbatim>\<open>re.findall(r'"([^"]*)"|(\d+\.?\d*)|({|}|\[|\]|=|,|:)|(\w+)', line)\<close> returns, for
  each match from left to right, the texts of the four groups (the empty string for a
  group that took no part). At each position the alternatives are tried in order; where
  none matches, the character is skipped.

  \<open>until_quote cs\<close> matches \<^verbatim>\<open>[^"]*"\<close> at the start of \<open>cs\<close>: the text before the next
  double quote, and the rest after it.
\<close>

type_synonym groups = "string \<times> string \<times> string \<times> string"

fun until_quote :: "string \<Rightarrow> (string \<times> string) option" where
  "until_quote [] = None"
| "until_quote (c # cs) =
     (if c = dquote then Some ([], cs)
      else (case until_quote cs of
              None \<Rightarrow> None
            | Some (body, rest) \<Rightarrow> Some (c # body, rest)))"

lemma until_quote_length:
  "until_quote cs = Some (body, rest) \<Longrightarrow> length rest < length cs"
  by (induction cs arbitrary: body rest) (auto split: if_splits option.splits)

text \<open>\<^verbatim>\<open>\d+\.?\d*\<close> at a digit \<open>c\<close>: the matched text and the rest.\<close>

definition match_number :: "char \<Rightarrow> string \<Rightarrow> string \<times> string" where
  "match_number c cs =
     (let ds = c # takeWhile is_digit cs;
          r1 = dropWhile is_digit cs
      in (case r1 of
            [] \<Rightarrow> (ds, [])
          | d # r2 \<Rightarrow>
              if d = CHR ''.''
              then (ds @ ''.'' @ takeWhile is_digit r2, dropWhile is_digit r2)
              else (ds, r1)))"

lemma match_number_length:
  "match_number c cs = (m, rest) \<Longrightarrow> length rest \<le> length cs"
proof -
  assume h: "match_number c cs = (m, rest)"
  have a: "length (dropWhile is_digit cs) \<le> length cs"
    by (rule length_dropWhile_le)
  show ?thesis
  proof (cases "dropWhile is_digit cs")
    case Nil
    with h show ?thesis by (simp add: match_number_def)
  next
    case (Cons d r2)
    have b: "length (dropWhile is_digit r2) \<le> length r2"
      by (rule length_dropWhile_le)
    have c: "length (d # r2) \<le> length cs" using a Cons by simp
    show ?thesis
    proof (cases "d = CHR ''.''")
      case True
      with h Cons have "rest = dropWhile is_digit r2"
        by (simp add: match_number_def)
      with b c show ?thesis by simp
    next
      case False
      with h Cons have "rest = d # r2"
        by (simp add: match_number_def)
      with c show ?thesis by simp
    qed
  qed
qed

function findall :: "string \<Rightarrow> groups list" where
  "findall [] = []"
| "findall (c # cs) =
     (if c = dquote then
        (case until_quote cs of
           Some (body, rest) \<Rightarrow> (body, [], [], []) # findall rest
         | None \<Rightarrow> findall cs)
      else if is_digit c then
        (case match_number c cs of (m, rest) \<Rightarrow> ([], m, [], []) # findall rest)
      else if is_operator_char c then ([], [], [c], []) # findall cs
      else if is_word c then
        ([], [], [], c # takeWhile is_word cs) # findall (dropWhile is_word cs)
      else findall cs)"
  by pat_completeness auto
termination
  by (relation "measure length")
     (auto dest: until_quote_length match_number_length [OF sym]
           simp: le_imp_less_Suc length_dropWhile_le)

subsection \<open>\<^verbatim>\<open>Tokenizer.tokenize\<close>\<close>

text \<open>
  The body of the loop over the matches: the first non-empty group decides the token;
  a match whose groups are all empty appends nothing. \<^verbatim>\<open>float(text)\<close> accepts every text
  the number group can match; \<^verbatim>\<open>int(text)\<close> may raise.
\<close>

definition classify :: "groups \<Rightarrow> error + token list" where
  "classify grp =
     (case grp of (g0, g1, g2, g3) \<Rightarrow>
        if g0 \<noteq> [] then Inr [STRING g0]
        else if g1 \<noteq> [] then
          (if CHR ''.'' \<in> set g1 then Inr [NUMBER (NFloat g1)]
           else (case py_int g1 of
                   Inl e \<Rightarrow> Inl e
                 | Inr n \<Rightarrow> Inr [NUMBER (NInt n)]))
        else if g2 \<noteq> [] then Inr [OPERATOR g2]
        else if g3 \<noteq> [] then Inr [IDENTIFIER g3]
        else Inr [])"

text \<open>
  The loop \<^verbatim>\<open>for group in regex_tokens\<close>: the tokens of the matches in order; an
  exception ends the loop and the run of the tokenizer.
\<close>

fun classify_all :: "groups list \<Rightarrow> error + token list" where
  "classify_all [] = Inr []"
| "classify_all (grp # grps) =
     (case classify grp of
        Inl e \<Rightarrow> Inl e
      | Inr ts \<Rightarrow>
          (case classify_all grps of
             Inl e \<Rightarrow> Inl e
           | Inr us \<Rightarrow> Inr (ts @ us)))"

definition scan_line :: "string \<Rightarrow> error + token list" where
  "scan_line line = classify_all (findall line)"

definition tokenize_line :: "string \<Rightarrow> error + token list" where
  "tokenize_line line0 =
     (let line1 = rstrip_nl line0;
          line2 = strip_inline_comments line1;
          line3 = strip line2
      in if line3 = [] then Inr [] else scan_line line3)"

fun tokenize_lines :: "string list \<Rightarrow> error + token list" where
  "tokenize_lines [] = Inr []"
| "tokenize_lines (line # lines) =
     (case tokenize_line line of
        Inl e \<Rightarrow> Inl e
      | Inr ts \<Rightarrow>
          (case tokenize_lines lines of
             Inl e \<Rightarrow> Inl e
           | Inr us \<Rightarrow> Inr (ts @ us)))"

definition tokenize :: "string \<Rightarrow> error + token list" where
  "tokenize source = tokenize_lines (splitlines source)"

section \<open>Parser\<close>

text \<open>
  The parser keeps the token list and a cursor that only moves forward. The model
  passes the tokens from the cursor on: \<^verbatim>\<open>peek_token\<close> looks at the head,
  \<^verbatim>\<open>get_token\<close> takes it off, and every parsing function returns its result with the
  tokens left, or the exception it raises.
\<close>

subsection \<open>Token helpers\<close>

fun val_of_number :: "number \<Rightarrow> val" where
  "val_of_number (NInt i) = VInt i"
| "val_of_number (NFloat t) = VFloat t"

definition is_op :: "token \<Rightarrow> string \<Rightarrow> bool" where
  "is_op t v = (case t of OPERATOR w \<Rightarrow> w = v | _ \<Rightarrow> False)"

fun expect_operator :: "string \<Rightarrow> token list \<Rightarrow> error + token \<times> token list" where
  "expect_operator op_char [] = Inl (SyntaxError (Expected_operator op_char))"
| "expect_operator op_char (t # rest) =
     (if \<not> is_op t op_char then Inl (SyntaxError (Expected_operator op_char))
      else Inr (t, rest))"

fun expect_kv_sep :: "token list \<Rightarrow> error + token \<times> token list" where
  "expect_kv_sep [] = Inl (SyntaxError Expected_kv_sep)"
| "expect_kv_sep (t # rest) =
     (if \<not> (is_op t '':'' \<or> is_op t ''='') then Inl (SyntaxError Expected_kv_sep)
      else Inr (t, rest))"

definition optional_comma :: "token list \<Rightarrow> token list" where
  "optional_comma toks =
     (case toks of [] \<Rightarrow> [] | comma # rest \<Rightarrow> if is_op comma '','' then rest else toks)"

definition is_bool_word :: "string \<Rightarrow> bool" where
  "is_bool_word w = (w = ''verdadero'' \<or> w = ''falso'')"

definition is_plain_identifier :: "token \<Rightarrow> bool" where
  "is_plain_identifier tok = (case tok of IDENTIFIER w \<Rightarrow> \<not> is_bool_word w | _ \<Rightarrow> False)"

fun token_text :: "token \<Rightarrow> string" where
  "token_text (IDENTIFIER w) = w"
| "token_text (STRING s) = s"
| "token_text (OPERATOR s) = s"
| "token_text (NUMBER n) = []"

definition map_key :: "token \<Rightarrow> string option" where
  "map_key t = (case t of IDENTIFIER w \<Rightarrow> Some w | STRING s \<Rightarrow> Some s | _ \<Rightarrow> None)"

function parse_value :: "token list \<Rightarrow> error + val \<times> token list"
  and parse_list :: "token list \<Rightarrow> error + val list \<times> token list"
  and parse_list_loop :: "val list \<Rightarrow> token list \<Rightarrow> error + val list \<times> token list"
  and parse_map :: "token list \<Rightarrow> error + dict \<times> token list"
  and parse_map_loop :: "dict \<Rightarrow> token list \<Rightarrow> error + dict \<times> token list"
where
  "parse_value [] = Inl (SyntaxError Expected_value)"
| "parse_value (token # rest) =
     (case token of
        STRING tval \<Rightarrow> Inr (VStr tval, rest)
      | NUMBER tval \<Rightarrow> Inr (val_of_number tval, rest)
      | IDENTIFIER tval \<Rightarrow>
          if is_bool_word tval then Inr (VBool (tval = ''verdadero''), rest)
          else Inl (SyntaxError Unexpected_value)
      | OPERATOR tval \<Rightarrow>
          if tval = ''['' then
            (case parse_list (token # rest) of
               Inl e \<Rightarrow> Inl e
             | Inr (lst, rest') \<Rightarrow> Inr (VList lst, rest'))
          else if tval = ''{'' then
            (case parse_map (token # rest) of
               Inl e \<Rightarrow> Inl e
             | Inr (mp, rest') \<Rightarrow> Inr (VDict mp, rest'))
          else Inl (SyntaxError Unexpected_value))"
| "parse_list toks =
     (case expect_operator ''['' toks of
        Inl e \<Rightarrow> Inl e
      | Inr (t, rest) \<Rightarrow> parse_list_loop [] rest)"
| "parse_list_loop lst [] = Inl (SyntaxError Unclosed_list)"
| "parse_list_loop lst (tok # rest) =
     (if is_op tok '']'' then Inr (lst, rest)
      else if is_plain_identifier tok then Inl (NameError (token_text tok))
      else
        (case parse_value (tok # rest) of
           Inl e \<Rightarrow> Inl e
         | Inr (v, rest') \<Rightarrow> parse_list_loop (lst @ [v]) (optional_comma rest')))"
| "parse_map toks =
     (case expect_operator ''{'' toks of
        Inl e \<Rightarrow> Inl e
      | Inr (t, rest) \<Rightarrow> parse_map_loop [] rest)"
| "parse_map_loop mp [] = Inl (SyntaxError Unclosed_map)"
| "parse_map_loop mp (t # rest) =
     (if is_op t ''}'' then Inr (mp, rest)
      else if is_op t '','' then parse_map_loop mp rest
      else
        (case map_key t of
           None \<Rightarrow> Inl (SyntaxError Invalid_map_key)
         | Some k \<Rightarrow>
             (case expect_kv_sep rest of
                Inl e \<Rightarrow> Inl e
              | Inr (sep, rest1) \<Rightarrow>
                  (case parse_value rest1 of
                     Inl e \<Rightarrow> Inl e
                   | Inr (v, rest2) \<Rightarrow>
                       if has_key k mp then Inl (SyntaxError (Duplicate_map_key k))
                       else parse_map_loop (dict_set k v mp) rest2))))"
  by pat_completeness auto




lemma expect_operator_Inr:
  "expect_operator op_char toks = Inr (t, rest) \<Longrightarrow> toks = t # rest"
  by (cases toks) (auto split: if_splits)

lemma expect_kv_sep_Inr:
  "expect_kv_sep toks = Inr (t, rest) \<Longrightarrow> toks = t # rest"
  by (cases toks) (auto split: if_splits)

lemma optional_comma_length: "length (optional_comma toks) \<le> length toks"
  by (cases toks) (auto simp: optional_comma_def)

lemma parse_dom_length:
  "parse_value_parse_list_parse_list_loop_parse_map_parse_map_loop_dom (Inl (Inl toks)) \<Longrightarrow>
     (\<forall>v r. parse_value toks = Inr (v, r) \<longrightarrow> length r < length toks)"
  "parse_value_parse_list_parse_list_loop_parse_map_parse_map_loop_dom (Inl (Inr toks1)) \<Longrightarrow>
     (\<forall>l r. parse_list toks1 = Inr (l, r) \<longrightarrow> length r < length toks1)"
  "parse_value_parse_list_parse_list_loop_parse_map_parse_map_loop_dom (Inr (Inl (lst, toks2))) \<Longrightarrow>
     (\<forall>l r. parse_list_loop lst toks2 = Inr (l, r) \<longrightarrow> length r < length toks2)"
  "parse_value_parse_list_parse_list_loop_parse_map_parse_map_loop_dom (Inr (Inr (Inl toks3))) \<Longrightarrow>
     (\<forall>m r. parse_map toks3 = Inr (m, r) \<longrightarrow> length r < length toks3)"
  "parse_value_parse_list_parse_list_loop_parse_map_parse_map_loop_dom (Inr (Inr (Inr (mp, toks4)))) \<Longrightarrow>
     (\<forall>m r. parse_map_loop mp toks4 = Inr (m, r) \<longrightarrow> length r < length toks4)"
proof (induct rule: parse_value_parse_list_parse_list_loop_parse_map_parse_map_loop.pinduct)
  case 1
  then show ?case by (simp add: parse_value.psimps)
next
  case (2 token rest)
  then show ?case
    by (auto simp: parse_value.psimps split: token.splits if_splits sum.splits)
next
  case (3 toks)
  then show ?case
    by (fastforce simp: parse_list.psimps split: sum.splits dest: expect_operator_Inr)
next
  case (4 lst)
  then show ?case by (simp add: parse_list_loop.psimps)
next
  case (5 lst tok rest)
  show ?case
  proof (intro allI impI)
    fix l r
    assume res: "parse_list_loop lst (tok # rest) = Inr (l, r)"
    show "length r < length (tok # rest)"
    proof (cases "is_op tok '']''")
      case True
      with res 5(1) show ?thesis by (simp add: parse_list_loop.psimps)
    next
      case False
      with res 5(1) have np: "\<not> is_plain_identifier tok"
        by (auto simp: parse_list_loop.psimps split: if_splits)
      from res 5(1) False np obtain v rest' where
        pv: "parse_value (tok # rest) = Inr (v, rest')" and
        lp: "parse_list_loop (lst @ [v]) (optional_comma rest') = Inr (l, r)"
        by (auto simp: parse_list_loop.psimps split: sum.splits)
      from 5(2) [OF False np] pv have a: "length rest' < length (tok # rest)" by blast
      from 5(3) [OF False np pv refl] lp
      have b: "length r < length (optional_comma rest')" by blast
      from a b optional_comma_length [of rest'] show ?thesis by simp
    qed
  qed
next
  case (6 toks)
  then show ?case
    by (fastforce simp: parse_map.psimps split: sum.splits dest: expect_operator_Inr)
next
  case (7 mp)
  then show ?case by (simp add: parse_map_loop.psimps)
next
  case (8 mp t rest)
  show ?case
  proof (intro allI impI)
    fix m r
    assume res: "parse_map_loop mp (t # rest) = Inr (m, r)"
    show "length r < length (t # rest)"
    proof (cases "is_op t ''}''")
      case True
      with res 8(1) show ?thesis by (simp add: parse_map_loop.psimps)
    next
      case close: False
      show ?thesis
      proof (cases "is_op t '',''")
        case True
        with res 8(1) close have "parse_map_loop mp rest = Inr (m, r)"
          by (simp add: parse_map_loop.psimps)
        with 8(2) [OF close True] show ?thesis by fastforce
      next
        case comma: False
        from res 8(1) close comma obtain k sep rest1 v rest2 where
          mk: "map_key t = Some k" and
          kv: "expect_kv_sep rest = Inr (sep, rest1)" and
          pv: "parse_value rest1 = Inr (v, rest2)" and
          nk: "\<not> has_key k mp" and
          lp: "parse_map_loop (dict_set k v mp) rest2 = Inr (m, r)"
          by (auto simp: parse_map_loop.psimps split: option.splits sum.splits if_splits)
        from 8(3) [OF close comma mk kv refl] pv
        have a: "length rest2 < length rest1" by blast
        from 8(4) [OF close comma mk kv refl pv refl nk] lp
        have b: "length r < length rest2" by blast
        from expect_kv_sep_Inr [OF kv] a b show ?thesis by simp
      qed
    qed
  qed
qed

termination parse_value
proof (relation "measure (\<lambda>x. case x of
      Inl (Inl toks) \<Rightarrow> 3 * length toks + 1
    | Inl (Inr toks) \<Rightarrow> 3 * length toks
    | Inr (Inl (lst, toks)) \<Rightarrow> 3 * length toks + 2
    | Inr (Inr (Inl toks)) \<Rightarrow> 3 * length toks
    | Inr (Inr (Inr (mp, toks))) \<Rightarrow> 3 * length toks + 2)", goal_cases)
  case 1
  show ?case by simp
next
  case (2 token rest x3)
  show ?case by simp
next
  case (3 token rest x3)
  show ?case by simp
next
  case (4 toks b x y)
  then show ?case using expect_operator_Inr [of "''[''" toks x y] by simp
next
  case (5 lst tok rest)
  show ?case by simp
next
  case (6 lst tok rest b x y)
  then show ?case
    using parse_dom_length(1) [of "tok # rest"] optional_comma_length [of y]
    by fastforce
next
  case (7 toks b x y)
  then show ?case using expect_operator_Inr [of "''{''" toks x y] by simp
next
  case (8 mp t rest)
  show ?case by simp
next
  case (9 mp t rest x2 b x y)
  then show ?case using expect_kv_sep_Inr [of rest x y] by simp
next
  case (10 mp t rest x2 b x y ba xa ya)
  then show ?case
    using parse_dom_length(1) [of y] expect_kv_sep_Inr [of rest x y]
    by fastforce
qed


lemma parse_length:
  "\<forall>v r. parse_value toks = Inr (v, r) \<longrightarrow> length r < length toks"
  "\<forall>l r. parse_list toks1 = Inr (l, r) \<longrightarrow> length r < length toks1"
  "\<forall>l r. parse_list_loop lst toks2 = Inr (l, r) \<longrightarrow> length r < length toks2"
  "\<forall>m r. parse_map toks3 = Inr (m, r) \<longrightarrow> length r < length toks3"
  "\<forall>m r. parse_map_loop mp toks4 = Inr (m, r) \<longrightarrow> length r < length toks4"
proof (induct toks and toks1 and lst toks2 and toks3 and mp toks4
       rule: parse_value_parse_list_parse_list_loop_parse_map_parse_map_loop.induct)
  case 1
  show ?case by simp
next
  case (2 token rest)
  then show ?case
    by (auto split: token.splits if_splits sum.splits)
next
  case (3 toks)
  then show ?case
    by (fastforce split: sum.splits dest: expect_operator_Inr)
next
  case (4 lst)
  show ?case by simp
next
  case (5 lst tok rest)
  show ?case
  proof (intro allI impI)
    fix l r
    assume res: "parse_list_loop lst (tok # rest) = Inr (l, r)"
    show "length r < length (tok # rest)"
    proof (cases "is_op tok '']''")
      case True
      with res show ?thesis by simp
    next
      case False
      with res have np: "\<not> is_plain_identifier tok"
        by (auto split: if_splits)
      from res False np obtain v rest' where
        pv: "parse_value (tok # rest) = Inr (v, rest')" and
        lp: "parse_list_loop (lst @ [v]) (optional_comma rest') = Inr (l, r)"
        by (auto split: sum.splits)
      from 5(1) [OF False np] pv have a: "length rest' < length (tok # rest)" by blast
      from 5(2) [OF False np pv refl] lp
      have b: "length r < length (optional_comma rest')" by blast
      from a b optional_comma_length [of rest'] show ?thesis by simp
    qed
  qed
next
  case (6 toks)
  then show ?case
    by (fastforce split: sum.splits dest: expect_operator_Inr)
next
  case (7 mp)
  show ?case by simp
next
  case (8 mp t rest)
  show ?case
  proof (intro allI impI)
    fix m r
    assume res: "parse_map_loop mp (t # rest) = Inr (m, r)"
    show "length r < length (t # rest)"
    proof (cases "is_op t ''}''")
      case True
      with res show ?thesis by simp
    next
      case close: False
      show ?thesis
      proof (cases "is_op t '',''")
        case True
        with res close have "parse_map_loop mp rest = Inr (m, r)" by simp
        with 8(1) [OF close True] show ?thesis by fastforce
      next
        case comma: False
        from res close comma obtain k sep rest1 v rest2 where
          mk: "map_key t = Some k" and
          kv: "expect_kv_sep rest = Inr (sep, rest1)" and
          pv: "parse_value rest1 = Inr (v, rest2)" and
          nk: "\<not> has_key k mp" and
          lp: "parse_map_loop (dict_set k v mp) rest2 = Inr (m, r)"
          by (auto split: option.splits sum.splits if_splits)
        from 8(2) [OF close comma mk kv refl] pv
        have a: "length rest2 < length rest1" by blast
        from 8(3) [OF close comma mk kv refl pv refl nk] lp
        have b: "length r < length rest2" by blast
        from expect_kv_sep_Inr [OF kv] a b show ?thesis by simp
      qed
    qed
  qed
qed

lemma parse_value_length:
  "parse_value toks = Inr (v, r) \<Longrightarrow> length r < length toks"
  using parse_length(1) [of toks] by blast

subsection \<open>\<^verbatim>\<open>Parser.parse_block_section\<close>\<close>

function parse_block_section :: "token list \<Rightarrow> error + dict \<times> token list"
  and parse_block_loop :: "dict \<Rightarrow> token list \<Rightarrow> error + dict \<times> token list"
where
  "parse_block_section toks =
     (case expect_operator ''{'' toks of
        Inl e \<Rightarrow> Inl e
      | Inr (t, rest) \<Rightarrow> parse_block_loop [] rest)"
| "parse_block_loop block_content [] = Inl (SyntaxError Unclosed_block)"
| "parse_block_loop block_content (tok # rest) =
     (if is_op tok ''}'' then Inr (block_content, rest)
      else
        (case tok of
           IDENTIFIER key \<Rightarrow>
             (case rest of
                [] \<Rightarrow> Inl (SyntaxError (Expected_assign_or_block key))
              | next_tok # rest1 \<Rightarrow>
                  if is_op next_tok ''='' then
                    (case parse_value rest1 of
                       Inl e \<Rightarrow> Inl e
                     | Inr (v, rest2) \<Rightarrow>
                         if has_key key block_content
                         then Inl (SyntaxError (Key_redefined key))
                         else parse_block_loop (dict_set key v block_content) rest2)
                  else if is_op next_tok ''{'' then
                    (case parse_block_section rest of
                       Inl e \<Rightarrow> Inl e
                     | Inr (sub_block, rest2) \<Rightarrow>
                         if has_key key block_content
                         then Inl (SyntaxError (Section_redefined key))
                         else parse_block_loop
                                (dict_set key (VDict sub_block) block_content) rest2)
                  else Inl (SyntaxError (Expected_assign_or_block key)))
         | _ \<Rightarrow> Inl (SyntaxError Expected_identifier)))"
  by pat_completeness auto


lemma parse_block_dom_length:
  "parse_block_section_parse_block_loop_dom (Inl toks) \<Longrightarrow>
     (\<forall>d r. parse_block_section toks = Inr (d, r) \<longrightarrow> length r < length toks)"
  "parse_block_section_parse_block_loop_dom (Inr (block_content, toks1)) \<Longrightarrow>
     (\<forall>d r. parse_block_loop block_content toks1 = Inr (d, r) \<longrightarrow> length r < length toks1)"
proof (induct rule: parse_block_section_parse_block_loop.pinduct)
  case (1 toks)
  then show ?case
    by (fastforce simp: parse_block_section.psimps split: sum.splits dest: expect_operator_Inr)
next
  case (2 block_content)
  then show ?case by (simp add: parse_block_loop.psimps)
next
  case (3 block_content tok rest)
  show ?case
  proof (intro allI impI)
    fix d r
    assume res: "parse_block_loop block_content (tok # rest) = Inr (d, r)"
    show "length r < length (tok # rest)"
    proof (cases "is_op tok ''}''")
      case True
      with res 3(1) show ?thesis by (simp add: parse_block_loop.psimps)
    next
      case close: False
      with res 3(1) obtain key next_tok rest1 where
        tk: "tok = IDENTIFIER key" and rs: "rest = next_tok # rest1"
        by (auto simp: parse_block_loop.psimps split: token.splits list.splits)
      show ?thesis
      proof (cases "is_op next_tok ''=''")
        case True
        with res 3(1) close tk rs obtain v rest2 where
          pv: "parse_value rest1 = Inr (v, rest2)" and
          nk: "\<not> has_key key block_content" and
          lp: "parse_block_loop (dict_set key v block_content) rest2 = Inr (d, r)"
          by (auto simp: parse_block_loop.psimps split: sum.splits if_splits)
        from 3(2) [OF close tk rs True pv refl nk] lp
        have "length r < length rest2" by blast
        with parse_value_length [OF pv] rs show ?thesis by simp
      next
        case eq: False
        with res 3(1) close tk rs have br: "is_op next_tok ''{''"
          by (auto simp: parse_block_loop.psimps split: if_splits)
        with res 3(1) close tk rs eq obtain sub_block rest2 where
          pb: "parse_block_section (next_tok # rest1) = Inr (sub_block, rest2)" and
          nk: "\<not> has_key key block_content" and
          lp: "parse_block_loop (dict_set key (VDict sub_block) block_content) rest2
                 = Inr (d, r)"
          by (auto simp: parse_block_loop.psimps split: sum.splits if_splits)
        from 3(3) [OF close tk rs eq br] pb rs
        have a: "length rest2 < length rest" by blast
        from 3(4) [OF close tk rs eq br] pb rs nk lp
        have "length r < length rest2" by blast
        with a show ?thesis by simp
      qed
    qed
  qed
qed

termination parse_block_section
proof (relation "measure (\<lambda>x. case x of
      Inl toks \<Rightarrow> 2 * length toks
    | Inr (bc, toks) \<Rightarrow> 2 * length toks + 1)", goal_cases)
  case 1
  show ?case by simp
next
  case (2 toks b x y)
  then show ?case using expect_operator_Inr [of "''{''" toks x y] by simp
next
  case (3 block_content tok rest x4 x21 x22 b x y)
  then show ?case using parse_value_length [of x22 x y] by simp
next
  case (4 block_content tok rest x4 x21 x22)
  then show ?case by simp
next
  case (5 block_content tok rest x4 x21 x22 b x y)
  then show ?case using parse_block_dom_length(1) [of "x21 # x22"] by fastforce
qed


subsection \<open>\<^verbatim>\<open>Parser.parse\<close>\<close>

lemma parse_block_length:
  "\<forall>d r. parse_block_section toks = Inr (d, r) \<longrightarrow> length r < length toks"
  "\<forall>d r. parse_block_loop block_content toks1 = Inr (d, r) \<longrightarrow> length r < length toks1"
proof (induct toks and block_content toks1
       rule: parse_block_section_parse_block_loop.induct)
  case (1 toks)
  then show ?case
    by (fastforce split: sum.splits dest: expect_operator_Inr)
next
  case (2 block_content)
  show ?case by simp
next
  case (3 block_content tok rest)
  show ?case
  proof (intro allI impI)
    fix d r
    assume res: "parse_block_loop block_content (tok # rest) = Inr (d, r)"
    show "length r < length (tok # rest)"
    proof (cases "is_op tok ''}''")
      case True
      with res show ?thesis by simp
    next
      case close: False
      with res obtain key next_tok rest1 where
        tk: "tok = IDENTIFIER key" and rs: "rest = next_tok # rest1"
        by (auto split: token.splits list.splits)
      show ?thesis
      proof (cases "is_op next_tok ''=''")
        case True
        with res close tk rs obtain v rest2 where
          pv: "parse_value rest1 = Inr (v, rest2)" and
          nk: "\<not> has_key key block_content" and
          lp: "parse_block_loop (dict_set key v block_content) rest2 = Inr (d, r)"
          by (auto split: sum.splits if_splits)
        from 3(1) [OF close tk rs True pv refl nk] lp
        have "length r < length rest2" by blast
        with parse_value_length [OF pv] rs show ?thesis by simp
      next
        case eq: False
        with res close tk rs have br: "is_op next_tok ''{''"
          by (auto split: if_splits)
        have "\<exists>sub_block rest2.
                parse_block_section (next_tok # rest1) = Inr (sub_block, rest2) \<and>
                \<not> has_key key block_content \<and>
                parse_block_loop (dict_set key (VDict sub_block) block_content) rest2
                  = Inr (d, r)"
          using res close tk rs eq br
          by (simp del: parse_block_section.simps split: sum.splits if_splits prod.splits)
        then obtain sub_block rest2 where
          pb: "parse_block_section (next_tok # rest1) = Inr (sub_block, rest2)" and
          nk: "\<not> has_key key block_content" and
          lp: "parse_block_loop (dict_set key (VDict sub_block) block_content) rest2
                 = Inr (d, r)"
          by blast
        from 3(2) [OF close tk rs eq br] pb rs
        have a: "length rest2 < length rest" by blast
        from 3(3) [OF close tk rs eq br] pb rs nk lp
        have "length r < length rest2" by blast
        with a show ?thesis by simp
      qed
    qed
  qed
qed

lemma parse_block_section_length:
  "parse_block_section toks = Inr (d, r) \<Longrightarrow> length r < length toks"
  using parse_block_length(1) [of toks] by blast

text \<open>
  The \<^verbatim>\<open>while\<close> loop of \<^verbatim>\<open>parse\<close>, with \<^verbatim>\<open>self.symbol_table\<close> as its first argument.
\<close>

function parse_loop :: "symbol_table \<Rightarrow> token list \<Rightarrow> error + symbol_table" where
  "parse_loop table [] = Inr table"
| "parse_loop table (ident # rest) =
     (case ident of
        IDENTIFIER w \<Rightarrow>
          if w \<noteq> ''juego'' then Inl (SyntaxError Expected_juego)
          else
            (case rest of
               [] \<Rightarrow> Inl (SyntaxError Expected_game_name)
             | name_tok # rest1 \<Rightarrow>
                 (case name_tok of
                    STRING game_name \<Rightarrow>
                      (case parse_block_section rest1 of
                         Inl e \<Rightarrow> Inl e
                       | Inr (root_block, rest2) \<Rightarrow>
                           if has_key game_name table
                           then Inl (SyntaxError (Game_redeclared game_name))
                           else parse_loop (dict_set game_name root_block table) rest2)
                  | _ \<Rightarrow> Inl (SyntaxError Expected_game_name)))
      | _ \<Rightarrow> Inl (SyntaxError Expected_juego))"
  by pat_completeness auto
termination
  by (relation "measure (\<lambda>(table, toks). length toks)")
     (auto dest: parse_block_section_length simp del: parse_block_section.simps)

definition parse :: "token list \<Rightarrow> error + symbol_table" where
  "parse tokens = parse_loop [] tokens"

subsection \<open>From the text to the symbol table\<close>

text \<open>
  The first two steps of the script: \<^verbatim>\<open>Tokenizer(source_code).tokenize()\<close> and then
  \<^verbatim>\<open>Parser(tokens).parse()\<close>. An exception of the tokenizer ends the run before the parser
  is built.
\<close>

definition parse_source :: "string \<Rightarrow> error + symbol_table" where
  "parse_source source =
     (case tokenize source of
        Inl e \<Rightarrow> Inl e
      | Inr tokens \<Rightarrow> parse tokens)"

section \<open>Validation\<close>

text \<open>
  The argument of the type tests is the result of \<^verbatim>\<open>dict.get\<close> or of an index, so it
  may be \<^verbatim>\<open>None\<close>. In the host language \<^verbatim>\<open>bool\<close> is a subclass of \<^verbatim>\<open>int\<close>:
  \<^verbatim>\<open>isinstance(True, int)\<close> holds.
\<close>

definition isinstance_int :: "val option \<Rightarrow> bool" where
  "isinstance_int x = (case x of Some (VInt i) \<Rightarrow> True | Some (VBool b) \<Rightarrow> True | _ \<Rightarrow> False)"

definition isinstance_bool :: "val option \<Rightarrow> bool" where
  "isinstance_bool x = (case x of Some (VBool b) \<Rightarrow> True | _ \<Rightarrow> False)"

definition is_int_strict :: "val option \<Rightarrow> bool" where
  "is_int_strict x = (isinstance_int x \<and> \<not> isinstance_bool x)"

definition is_str :: "val option \<Rightarrow> bool" where
  "is_str x = (case x of Some (VStr s) \<Rightarrow> True | _ \<Rightarrow> False)"

text \<open>
  \<^verbatim>\<open>obj.get(k)\<close>: only a dict has the method; on any other value the attribute lookup
  raises \<^verbatim>\<open>AttributeError\<close>.
\<close>

definition py_get :: "val \<Rightarrow> string \<Rightarrow> error + val option" where
  "py_get obj k = (case obj of VDict d \<Rightarrow> Inr (map_of d k) | _ \<Rightarrow> Inl AttributeError)"

text \<open>
  \<^verbatim>\<open>obj[k]\<close> with a string \<open>k\<close>: the value under the key on a dict (\<^verbatim>\<open>KeyError\<close> when
  absent); a list or a string takes integer indices only and a number has no items, so
  any other value raises \<^verbatim>\<open>TypeError\<close>.
\<close>

definition py_index :: "val \<Rightarrow> string \<Rightarrow> error + val" where
  "py_index obj k = (case obj of VDict d \<Rightarrow> dict_index d k | _ \<Rightarrow> Inl TypeError)"

text \<open>
  \<^verbatim>\<open>is_int_strict(obj.get(k)) and obj[k] > 0\<close>. The second operand is evaluated only
  when the first holds, and then \<^verbatim>\<open>obj[k]\<close> is the integer that \<^verbatim>\<open>get\<close> returned.
  \<^verbatim>\<open>int_ge0\<close> is the same with \<^verbatim>\<open>>= 0\<close>, on a value already looked up.
\<close>

definition int_gt0 :: "val option \<Rightarrow> bool" where
  "int_gt0 x = (is_int_strict x \<and> (case x of Some (VInt i) \<Rightarrow> 0 < i | _ \<Rightarrow> False))"

definition int_ge0 :: "val option \<Rightarrow> bool" where
  "int_ge0 x = (is_int_strict x \<and> (case x of Some (VInt i) \<Rightarrow> 0 \<le> i | _ \<Rightarrow> False))"

text \<open>\<^verbatim>\<open>sep.join(xs)\<close>\<close>

fun join :: "string \<Rightarrow> string list \<Rightarrow> string" where
  "join sep [] = []"
| "join sep [x] = x"
| "join sep (x # y # xs) = x @ sep @ join sep (y # xs)"

text \<open>\<^verbatim>\<open>k in obj\<close>: key test on a dict, element test on a list, substring test on a string.\<close>

fun is_substring :: "string \<Rightarrow> string \<Rightarrow> bool" where
  "is_substring k [] = (k = [])"
| "is_substring k (c # cs) = (take (length k) (c # cs) = k \<or> is_substring k cs)"

definition py_contains :: "string \<Rightarrow> val \<Rightarrow> error + bool" where
  "py_contains k obj =
     (case obj of
        VDict d \<Rightarrow> Inr (has_key k d)
      | VList xs \<Rightarrow> Inr (VStr k \<in> set xs)
      | VStr s \<Rightarrow> Inr (is_substring k s)
      | _ \<Rightarrow> Inl TypeError)"

subsection \<open>\<^verbatim>\<open>validate_snake\<close>\<close>

text \<open>The loop over the four controls; falling out of it returns \<^verbatim>\<open>(True, "Snake OK")\<close>.\<close>

fun snake_controles :: "val \<Rightarrow> string list \<Rightarrow> error + bool \<times> string" where
  "snake_controles con [] = Inr (True, ''Snake OK'')"
| "snake_controles con (k # ks) =
     (case py_get con k of
        Inl e \<Rightarrow> Inl e
      | Inr x \<Rightarrow>
          if \<not> is_str x then Inr (False, ''Snake: controles.'' @ k @ '' debe ser cadena'')
          else snake_controles con ks)"

definition validate_snake :: "dict \<Rightarrow> error + bool \<times> string" where
  "validate_snake cfg =
     (let missing_sections =
            filter (\<lambda>k. \<not> has_key k cfg) [''rejilla'', ''velocidad'', ''controles'']
      in if missing_sections \<noteq> [] then
           Inr (False, ''Snake: faltan secciones: '' @ join '', '' missing_sections)
         else
      (case dict_index cfg ''rejilla'' of Inl e \<Rightarrow> Inl e | Inr rej \<Rightarrow>
      (case dict_index cfg ''velocidad'' of Inl e \<Rightarrow> Inl e | Inr vel \<Rightarrow>
      (case dict_index cfg ''controles'' of Inl e \<Rightarrow> Inl e | Inr con \<Rightarrow>
      (case py_get rej ''ancho'' of Inl e \<Rightarrow> Inl e | Inr ancho \<Rightarrow>
         if \<not> int_gt0 ancho then Inr (False, ''Snake: rejilla.ancho debe ser entero > 0'')
         else
      (case py_get rej ''alto'' of Inl e \<Rightarrow> Inl e | Inr alto \<Rightarrow>
         if \<not> int_gt0 alto then Inr (False, ''Snake: rejilla.alto debe ser entero > 0'')
         else
      (case py_get vel ''tick_ms'' of Inl e \<Rightarrow> Inl e | Inr tick_ms \<Rightarrow>
         if \<not> int_gt0 tick_ms
         then Inr (False, ''Snake: velocidad.tick_ms debe ser entero > 0'')
         else snake_controles con [''arriba'', ''abajo'', ''izquierda'', ''derecha''])))))))"

subsection \<open>\<^verbatim>\<open>validate_tetris\<close>\<close>

text \<open>
  The two loops at the end of \<^verbatim>\<open>validate_tetris\<close>: over the keys of \<^verbatim>\<open>por_linea\<close>
  (a dict at that point), then over the optional fields of \<^verbatim>\<open>velocidad\<close>.
\<close>

fun tetris_opcionales :: "val \<Rightarrow> string list \<Rightarrow> error + bool \<times> string" where
  "tetris_opcionales vel [] = Inr (True, ''Tetris OK'')"
| "tetris_opcionales vel (opt # opts) =
     (case py_contains opt vel of
        Inl e \<Rightarrow> Inl e
      | Inr present \<Rightarrow>
          if \<not> present then tetris_opcionales vel opts
          else
            (case py_index vel opt of
               Inl e \<Rightarrow> Inl e
             | Inr x \<Rightarrow>
                 if \<not> is_int_strict (Some x)
                 then Inr (False, ''Tetris: velocidad.'' @ opt @ '' debe ser entero'')
                 else tetris_opcionales vel opts))"

fun tetris_por_linea :: "dict \<Rightarrow> val \<Rightarrow> string list \<Rightarrow> error + bool \<times> string" where
  "tetris_por_linea pl vel [] =
     tetris_opcionales vel [''soft_drop_ms'', ''lock_delay_ms'']"
| "tetris_por_linea pl vel (k # ks) =
     (if \<not> has_key k pl \<or> \<not> int_ge0 (map_of pl k)
      then Inr (False, ''Tetris: puntuacion.por_linea['' @ [CHR 0x27] @ k @ [CHR 0x27]
                        @ ''] debe ser entero >= 0'')
      else tetris_por_linea pl vel ks)"

definition validate_tetris :: "dict \<Rightarrow> error + bool \<times> string" where
  "validate_tetris cfg =
     (let missing_sections =
            filter (\<lambda>k. \<not> has_key k cfg) [''rejilla'', ''velocidad'', ''puntuacion'']
      in if missing_sections \<noteq> [] then
           Inr (False, ''Tetris: faltan secciones: '' @ join '', '' missing_sections)
         else
      (case dict_index cfg ''rejilla'' of Inl e \<Rightarrow> Inl e | Inr rej \<Rightarrow>
      (case dict_index cfg ''velocidad'' of Inl e \<Rightarrow> Inl e | Inr vel \<Rightarrow>
      (case dict_index cfg ''puntuacion'' of Inl e \<Rightarrow> Inl e | Inr pun \<Rightarrow>
      (case py_get rej ''ancho'' of Inl e \<Rightarrow> Inl e | Inr ancho \<Rightarrow>
         if \<not> int_gt0 ancho then Inr (False, ''Tetris: rejilla.ancho debe ser entero > 0'')
         else
      (case py_get rej ''alto'' of Inl e \<Rightarrow> Inl e | Inr alto \<Rightarrow>
         if \<not> int_gt0 alto then Inr (False, ''Tetris: rejilla.alto debe ser entero > 0'')
         else
      (case py_get vel ''gravedad_ms'' of Inl e \<Rightarrow> Inl e | Inr gravedad_ms \<Rightarrow>
         if \<not> int_gt0 gravedad_ms
         then Inr (False, ''Tetris: velocidad.gravedad_ms debe ser entero > 0'')
         else
      (case py_get pun ''por_linea'' of Inl e \<Rightarrow> Inl e | Inr pl \<Rightarrow>
         (case pl of
            Some (VDict pl_dict) \<Rightarrow> tetris_por_linea pl_dict vel [''1'', ''2'', ''3'', ''4'']
          | _ \<Rightarrow> Inr (False, ''Tetris: puntuacion.por_linea debe ser un mapa''))))))))))"

subsection \<open>\<^verbatim>\<open>validate_all\<close>\<close>

definition validate_game :: "string \<Rightarrow> dict \<Rightarrow> error + bool \<times> string" where
  "validate_game game_name cfg =
     (if game_name = ''snake'' then validate_snake cfg
      else if game_name = ''tetris'' then validate_tetris cfg
      else Inr (True, ''Juego generico (sin validador especifico)''))"

fun validate_all :: "symbol_table \<Rightarrow> error + validation_record list" where
  "validate_all [] = Inr []"
| "validate_all ((game_name, cfg) # items) =
     (case validate_game game_name cfg of
        Inl e \<Rightarrow> Inl e
      | Inr (ok, msg) \<Rightarrow>
          (case validate_all items of
             Inl e \<Rightarrow> Inl e
           | Inr results \<Rightarrow>
               Inr (\<lparr>juego = game_name, valido = ok, mensaje = msg\<rparr> # results)))"

section \<open>Properties\<close>

subsection \<open>Blank lines and comments\<close>

text \<open>
  A line is blank or a comment when nothing, or a \<^verbatim>\<open>#\<close>, follows its leading white
  space.
\<close>

definition blank_or_comment :: "string \<Rightarrow> bool" where
  "blank_or_comment line =
     (case dropWhile is_space line of [] \<Rightarrow> True | c # cs \<Rightarrow> c = CHR ''#'')"

lemma strip_loop_plain:
  "\<forall>c\<in>set s. c \<noteq> dquote \<and> c \<noteq> CHR ''#'' \<Longrightarrow> strip_loop False esc s = s"
  by (induction s) auto

lemma strip_loop_comment:
  "\<forall>c\<in>set ws. c \<noteq> dquote \<and> c \<noteq> CHR ''#'' \<Longrightarrow>
   strip_loop False esc (ws @ CHR ''#'' # t) = ws"
  by (induction ws) (auto simp: dquote_def)

lemma is_space_plain: "is_space c \<Longrightarrow> c \<noteq> dquote \<and> c \<noteq> CHR ''#''"
  by (auto simp: is_space_def dquote_def)

lemma strip_spaces: "\<forall>c\<in>set s. is_space c \<Longrightarrow> strip s = []"
proof -
  assume "\<forall>c\<in>set s. is_space c"
  then have h: "dropWhile is_space s = []" by (simp add: dropWhile_eq_Nil_conv)
  show ?thesis unfolding strip_def h by simp
qed

lemma rstrip_nl_keep:
  "c \<noteq> CHR 0x0A \<Longrightarrow> rstrip_nl (xs @ c # ys) = xs @ c # rstrip_nl ys"
  by (simp add: rstrip_nl_def dropWhile_append)

lemma rstrip_nl_subset: "set (rstrip_nl s) \<subseteq> set s"
  using set_dropWhileD [of _ "\<lambda>c. c = CHR 0x0A" "rev s"]
  by (auto simp: rstrip_nl_def)

lemma tokenize_line_blank:
  assumes "blank_or_comment line"
  shows "tokenize_line line = Inr []"
proof -
  define ws where "ws = takeWhile is_space line"
  have ws: "\<forall>c\<in>set ws. is_space c"
    unfolding ws_def by (auto dest: set_takeWhileD)
  have split: "line = ws @ dropWhile is_space line"
    unfolding ws_def by simp
  have "strip_inline_comments (rstrip_nl line) = []"
  proof (cases "dropWhile is_space line")
    case Nil
    with split have "line = ws" by simp
    with ws rstrip_nl_subset [of line]
    have sp: "\<forall>c\<in>set (rstrip_nl line). is_space c" by auto
    then have "strip_loop False False (rstrip_nl line) = rstrip_nl line"
      by (intro strip_loop_plain) (auto dest: is_space_plain)
    with sp show ?thesis by (simp add: strip_inline_comments_def strip_spaces)
  next
    case (Cons c t)
    with assms have c: "c = CHR ''#''" by (simp add: blank_or_comment_def)
    with split Cons have "line = ws @ CHR ''#'' # t" by simp
    then have "rstrip_nl line = ws @ CHR ''#'' # rstrip_nl t"
      by (simp add: rstrip_nl_keep)
    moreover have "strip_loop False False (ws @ CHR ''#'' # rstrip_nl t) = ws"
      using ws by (intro strip_loop_comment) (auto dest: is_space_plain)
    ultimately show ?thesis using ws
      by (simp add: strip_inline_comments_def strip_spaces)
  qed
  then show ?thesis by (simp add: tokenize_line_def strip_def)
qed

lemma tokenize_lines_blank:
  "\<forall>line\<in>set lines. blank_or_comment line \<Longrightarrow> tokenize_lines lines = Inr []"
  by (induction lines) (simp_all add: tokenize_line_blank)

lemma splitlines_from_Nil: "splitlines_from cur s = [] \<longleftrightarrow> cur = [] \<and> s = []"
  by (induction cur s rule: splitlines_from.induct) auto

text \<open>
  C10. The empty text, and every text made of blank lines and comments only, has the
  empty token sequence. For every text whose token sequence is empty the parser returns
  the empty symbol table, and the validator returns the empty list of records for that
  table.
\<close>

theorem empty_input_empty_report:
  "tokenize [] = Inr []
   \<and> ((\<forall>line\<in>set (splitlines src). blank_or_comment line) \<longrightarrow> tokenize src = Inr [])
   \<and> (tokenize src = Inr [] \<longrightarrow>
        parse_source src = Inr [] \<and> parse [] = Inr [] \<and> validate_all [] = Inr [])"
  by (simp add: tokenize_def tokenize_lines_blank parse_def parse_source_def splitlines_def)

theorem empty_input_empty_report_witness:
  "list_all blank_or_comment (splitlines [CHR ''#'', CHR ''x'', CHR 0x0A, CHR 0x0A, CHR '' ''])
   \<and> tokenize [CHR ''#'', CHR ''x'', CHR 0x0A, CHR 0x0A, CHR '' ''] = Inr []
   \<and> parse_source [CHR ''#'', CHR ''x'', CHR 0x0A, CHR 0x0A, CHR '' ''] = Inr []
   \<and> validate_all [] = Inr []"
proof -
  have h: "\<forall>line\<in>set (splitlines [CHR ''#'', CHR ''x'', CHR 0x0A, CHR 0x0A, CHR '' '']).
             blank_or_comment line"
    by (simp add: splitlines_def is_linebreak_def blank_or_comment_def is_space_def)
  then have "list_all blank_or_comment
               (splitlines [CHR ''#'', CHR ''x'', CHR 0x0A, CHR 0x0A, CHR '' ''])"
    by (simp add: list_all_iff)
  then show ?thesis
    using h empty_input_empty_report [of "[CHR ''#'', CHR ''x'', CHR 0x0A, CHR 0x0A, CHR '' '']"]
    by blast
qed

subsection \<open>Parser\<close>

lemma is_op_simps [simp]:
  "is_op (OPERATOR w) v = (w = v)"
  "is_op (IDENTIFIER w) v = False"
  "is_op (STRING w) v = False"
  "is_op (NUMBER n) v = False"
  by (simp_all add: is_op_def)

lemma is_plain_identifier_simps [simp]:
  "is_plain_identifier (IDENTIFIER w) = (\<not> is_bool_word w)"
  "is_plain_identifier (OPERATOR w) = False"
  "is_plain_identifier (STRING w) = False"
  "is_plain_identifier (NUMBER n) = False"
  by (simp_all add: is_plain_identifier_def)

lemma map_key_simps [simp]:
  "map_key (IDENTIFIER w) = Some w"
  "map_key (STRING w) = Some w"
  "map_key (OPERATOR w) = None"
  "map_key (NUMBER n) = None"
  by (simp_all add: map_key_def)


fun unique_keys :: "val \<Rightarrow> bool" where
  "unique_keys (VList xs) = (\<forall>v\<in>set xs. unique_keys v)"
| "unique_keys (VDict d) = (distinct (keys d) \<and> (\<forall>v\<in>set (map snd d). unique_keys v))"
| "unique_keys v = True"

lemma dict_set_fresh: "\<not> has_key k d \<Longrightarrow> dict_set k v d = d @ [(k, v)]"
  by (induction d) (auto simp: has_key_def keys_def)

lemma unique_keys_dict_set:
  "unique_keys (VDict d) \<Longrightarrow> unique_keys v \<Longrightarrow> \<not> has_key k d \<Longrightarrow>
   unique_keys (VDict (dict_set k v d))"
  by (auto simp: dict_set_fresh has_key_def keys_def)

lemma parse_unique_keys:
  "\<forall>v r. parse_value toks = Inr (v, r) \<longrightarrow> unique_keys v"
  "\<forall>l r. parse_list toks1 = Inr (l, r) \<longrightarrow> (\<forall>v\<in>set l. unique_keys v)"
  "\<forall>l r. (\<forall>v\<in>set lst. unique_keys v) \<longrightarrow> parse_list_loop lst toks2 = Inr (l, r)
          \<longrightarrow> (\<forall>v\<in>set l. unique_keys v)"
  "\<forall>m r. parse_map toks3 = Inr (m, r) \<longrightarrow> unique_keys (VDict m)"
  "\<forall>m r. unique_keys (VDict mp) \<longrightarrow> parse_map_loop mp toks4 = Inr (m, r)
          \<longrightarrow> unique_keys (VDict m)"
proof (induct toks and toks1 and lst toks2 and toks3 and mp toks4
       rule: parse_value_parse_list_parse_list_loop_parse_map_parse_map_loop.induct)
  case 1
  show ?case by simp
next
  case (2 token rest)
  show ?case
  proof (cases token)
    case (STRING s)
    then show ?thesis by auto
  next
    case (NUMBER n)
    then show ?thesis by (cases n) auto
  next
    case (OPERATOR w)
    with 2 show ?thesis
      by (auto simp del: parse_list.simps parse_map.simps split: if_splits sum.splits)
  next
    case (IDENTIFIER w)
    then show ?thesis by (auto split: if_splits)
  qed
next
  case (3 toks)
  then show ?case
    by (auto split: sum.splits)
next
  case (4 lst)
  show ?case by simp
next
  case (5 lst tok rest)
  show ?case
  proof (intro allI impI)
    fix l r
    assume inv: "\<forall>v\<in>set lst. unique_keys v"
      and res: "parse_list_loop lst (tok # rest) = Inr (l, r)"
    show "\<forall>v\<in>set l. unique_keys v"
    proof (cases "is_op tok '']''")
      case True
      with res inv show ?thesis by simp
    next
      case False
      with res have np: "\<not> is_plain_identifier tok"
        by (auto split: if_splits)
      from res False np obtain v rest' where
        pv: "parse_value (tok # rest) = Inr (v, rest')" and
        lp: "parse_list_loop (lst @ [v]) (optional_comma rest') = Inr (l, r)"
        by (auto split: sum.splits)
      from 5(1) [OF False np] pv have "unique_keys v" by blast
      with inv have "\<forall>x\<in>set (lst @ [v]). unique_keys x" by simp
      with 5(2) [OF False np pv refl] lp show ?thesis by blast
    qed
  qed
next
  case (6 toks)
  then show ?case
    by (auto simp: keys_def split: sum.splits)
next
  case (7 mp)
  show ?case by simp
next
  case (8 mp t rest)
  show ?case
  proof (intro allI impI)
    fix m r
    assume inv: "unique_keys (VDict mp)"
      and res: "parse_map_loop mp (t # rest) = Inr (m, r)"
    show "unique_keys (VDict m)"
    proof (cases "is_op t ''}''")
      case True
      with res inv show ?thesis by simp
    next
      case close: False
      show ?thesis
      proof (cases "is_op t '',''")
        case True
        with res close have "parse_map_loop mp rest = Inr (m, r)" by simp
        with 8(1) [OF close True] inv show ?thesis by blast
      next
        case comma: False
        from res close comma obtain k sep rest1 v rest2 where
          mk: "map_key t = Some k" and
          kv: "expect_kv_sep rest = Inr (sep, rest1)" and
          pv: "parse_value rest1 = Inr (v, rest2)" and
          nk: "\<not> has_key k mp" and
          lp: "parse_map_loop (dict_set k v mp) rest2 = Inr (m, r)"
          by (auto split: option.splits sum.splits if_splits)
        from 8(2) [OF close comma mk kv refl] pv have "unique_keys v" by blast
        with inv nk have "unique_keys (VDict (dict_set k v mp))"
          by (blast intro: unique_keys_dict_set)
        with 8(3) [OF close comma mk kv refl pv refl nk] lp show ?thesis by blast
      qed
    qed
  qed
qed


lemma parse_value_unique_keys:
  "parse_value toks = Inr (v, r) \<Longrightarrow> unique_keys v"
  using parse_unique_keys(1) [of toks] by blast

lemma parse_block_unique_keys:
  "\<forall>d r. parse_block_section toks = Inr (d, r) \<longrightarrow> unique_keys (VDict d)"
  "\<forall>d r. unique_keys (VDict block_content) \<longrightarrow>
          parse_block_loop block_content toks1 = Inr (d, r) \<longrightarrow>
          unique_keys (VDict d) \<and> (\<exists>new. d = block_content @ new)"
proof (induct toks and block_content toks1
       rule: parse_block_section_parse_block_loop.induct)
  case (1 toks)
  then show ?case
    by (auto simp: keys_def split: sum.splits)
next
  case (2 block_content)
  show ?case by simp
next
  case (3 block_content tok rest)
  show ?case
  proof (intro allI impI)
    fix d r
    assume inv: "unique_keys (VDict block_content)"
      and res: "parse_block_loop block_content (tok # rest) = Inr (d, r)"
    show "unique_keys (VDict d) \<and> (\<exists>new. d = block_content @ new)"
    proof (cases "is_op tok ''}''")
      case True
      with res inv show ?thesis by simp
    next
      case close: False
      with res obtain key next_tok rest1 where
        tk: "tok = IDENTIFIER key" and rs: "rest = next_tok # rest1"
        by (auto split: token.splits list.splits)
      show ?thesis
      proof (cases "is_op next_tok ''=''")
        case True
        with res close tk rs obtain v rest2 where
          pv: "parse_value rest1 = Inr (v, rest2)" and
          nk: "\<not> has_key key block_content" and
          lp: "parse_block_loop (dict_set key v block_content) rest2 = Inr (d, r)"
          by (auto split: sum.splits if_splits)
        from inv nk parse_value_unique_keys [OF pv]
        have "unique_keys (VDict (dict_set key v block_content))"
          by (blast intro: unique_keys_dict_set)
        with 3(1) [OF close tk rs True pv refl nk] lp
        have "unique_keys (VDict d) \<and> (\<exists>new. d = dict_set key v block_content @ new)"
          by blast
        then show ?thesis by (auto simp: dict_set_fresh [OF nk])
      next
        case eq: False
        with res close tk rs have br: "is_op next_tok ''{''"
          by (auto split: if_splits)
        have "\<exists>sub_block rest2.
                parse_block_section (next_tok # rest1) = Inr (sub_block, rest2) \<and>
                \<not> has_key key block_content \<and>
                parse_block_loop (dict_set key (VDict sub_block) block_content) rest2
                  = Inr (d, r)"
          using res close tk rs eq br
          by (simp del: parse_block_section.simps split: sum.splits if_splits prod.splits)
        then obtain sub_block rest2 where
          pb: "parse_block_section (next_tok # rest1) = Inr (sub_block, rest2)" and
          nk: "\<not> has_key key block_content" and
          lp: "parse_block_loop (dict_set key (VDict sub_block) block_content) rest2
                 = Inr (d, r)"
          by blast
        from 3(2) [OF close tk rs eq br] pb rs
        have "unique_keys (VDict sub_block)" by blast
        with inv nk have "unique_keys (VDict (dict_set key (VDict sub_block) block_content))"
          by (blast intro: unique_keys_dict_set)
        with 3(3) [OF close tk rs eq br] pb rs nk lp
        have "unique_keys (VDict d) \<and>
              (\<exists>new. d = dict_set key (VDict sub_block) block_content @ new)"
          by blast
        then show ?thesis by (auto simp: dict_set_fresh [OF nk])
      qed
    qed
  qed
qed

lemma parse_block_section_unique_keys:
  "parse_block_section toks = Inr (d, r) \<Longrightarrow> unique_keys (VDict d)"
  using parse_block_unique_keys(1) [of toks] by blast

definition unique_table :: "symbol_table \<Rightarrow> bool" where
  "unique_table table =
     (distinct (keys table) \<and> (\<forall>blk\<in>set (map snd table). unique_keys (VDict blk)))"

lemma unique_table_dict_set:
  "unique_table table \<Longrightarrow> unique_keys (VDict blk) \<Longrightarrow> \<not> has_key name table \<Longrightarrow>
   unique_table (dict_set name blk table)"
  by (auto simp: unique_table_def dict_set_fresh has_key_def keys_def)

lemma parse_loop_unique:
  "unique_table table \<Longrightarrow> parse_loop table toks = Inr result \<Longrightarrow> unique_table result"
proof (induct table toks rule: parse_loop.induct)
  case (1 table)
  then show ?case by simp
next
  case (2 table ident rest)
  from 2(3) obtain name_tok rest1 where
    id: "ident = IDENTIFIER ''juego''" and rs: "rest = name_tok # rest1"
    by (auto split: token.splits list.splits if_splits)
  from 2(3) id rs obtain game_name where nt: "name_tok = STRING game_name"
    by (auto simp del: parse_block_section.simps split: token.splits)
  have "\<exists>root_block rest2.
          parse_block_section rest1 = Inr (root_block, rest2) \<and>
          \<not> has_key game_name table \<and>
          parse_loop (dict_set game_name root_block table) rest2 = Inr result"
    using 2(3) id rs nt
    by (simp del: parse_block_section.simps split: sum.splits if_splits prod.splits)
  then obtain root_block rest2 where
    pb: "parse_block_section rest1 = Inr (root_block, rest2)" and
    nk: "\<not> has_key game_name table" and
    lp: "parse_loop (dict_set game_name root_block table) rest2 = Inr result"
    by blast
  from 2(2) parse_block_section_unique_keys [OF pb] nk
  have "unique_table (dict_set game_name root_block table)"
    by (blast intro: unique_table_dict_set)
  with 2(1) [OF id _ rs nt pb refl nk] lp show ?case by simp
qed


inductive block_step :: "dict \<times> token list \<Rightarrow> dict \<times> token list \<Rightarrow> bool" where
  step_assignment:
    "parse_value rest = Inr (v, rest') \<Longrightarrow> \<not> has_key key block_content \<Longrightarrow>
     block_step (block_content, IDENTIFIER key # OPERATOR ''='' # rest)
                (dict_set key v block_content, rest')"
| step_section:
    "parse_block_section (OPERATOR ''{'' # rest) = Inr (sub_block, rest') \<Longrightarrow>
     \<not> has_key key block_content \<Longrightarrow>
     block_step (block_content, IDENTIFIER key # OPERATOR ''{'' # rest)
                (dict_set key (VDict sub_block) block_content, rest')"

lemma block_step_loop:
  "block_step s s' \<Longrightarrow> parse_block_loop (fst s) (snd s) = parse_block_loop (fst s') (snd s')"
  by (induct rule: block_step.induct) (simp_all del: parse_block_section.simps)

lemma block_steps_loop:
  "block_step\<^sup>*\<^sup>* s s' \<Longrightarrow>
   parse_block_loop (fst s) (snd s) = parse_block_loop (fst s') (snd s')"
  by (induct rule: rtranclp_induct) (simp_all add: block_step_loop)

lemma keys_dict_set:
  "keys (dict_set k v d) = (if k \<in> set (keys d) then keys d else keys d @ [k])"
  by (induction d) (force simp: keys_def)+

lemma has_key_dict_set: "has_key k d \<Longrightarrow> has_key k (dict_set k' v d)"
  by (simp add: has_key_def keys_dict_set)

lemma has_key_dict_set_same: "has_key k (dict_set k v d)"
  by (simp add: has_key_def keys_dict_set)

lemma block_step_keys: "block_step s s' \<Longrightarrow> has_key k (fst s) \<Longrightarrow> has_key k (fst s')"
  by (induct rule: block_step.induct) (simp_all add: has_key_dict_set)

lemma block_steps_keys:
  "block_step\<^sup>*\<^sup>* s s' \<Longrightarrow> has_key k (fst s) \<Longrightarrow> has_key k (fst s')"
  by (induct rule: rtranclp_induct) (auto dest: block_step_keys)

lemma block_step_binds:
  "block_step (bc, IDENTIFIER key # toks) s' \<Longrightarrow> has_key key (fst s')"
  by (erule block_step.cases) (simp_all add: has_key_dict_set_same)

lemma rebinding_fails:
  assumes "has_key key block_content" "w = ''='' \<or> w = ''{''"
  shows "\<exists>e. parse_block_loop block_content (IDENTIFIER key # OPERATOR w # rest) = Inl e"
  using assms
  by (auto simp del: parse_block_section.simps split: sum.splits)

lemma map_rebinding_fails:
  assumes "has_key k mp" "map_key t = Some k"
  shows "\<exists>e. parse_map_loop mp (t # rest) = Inl e"
  using assms by (cases t) (auto split: sum.splits)

text \<open>
  C5. Every block and every map of a parsed symbol table has unique keys at its own
  level, and so has the table itself. At a block level, once a key has been bound (as an
  assignment or as a section), a later binding of the same key in the same block, in
  either form and after any number of other bindings, makes the block loop, and with it
  the parse of a declaration whose root block this is, end in an error. A map key that
  is bound again makes the map loop end in an error as well.
\<close>

theorem keys_unique_or_parse_fails:
  "(parse toks = Inr table \<longrightarrow> unique_table table)
   \<and> (block_step (bc0, IDENTIFIER key # toks0) s1
        \<and> block_step\<^sup>*\<^sup>* s1 (bc2, IDENTIFIER key # OPERATOR w # rest)
        \<and> (w = ''='' \<or> w = ''{'') \<longrightarrow>
          (\<exists>e. parse_block_loop bc0 (IDENTIFIER key # toks0) = Inl e))
   \<and> (block_step ([], IDENTIFIER key # toks0) s1
        \<and> block_step\<^sup>*\<^sup>* s1 (bc2, IDENTIFIER key # OPERATOR w # rest)
        \<and> (w = ''='' \<or> w = ''{'') \<longrightarrow>
          (\<exists>e. parse (IDENTIFIER ''juego'' # STRING name # OPERATOR ''{''
                       # IDENTIFIER key # toks0) = Inl e))
   \<and> (has_key k mp \<and> map_key t = Some k \<longrightarrow>
        (\<exists>e. parse_map_loop mp (t # rest) = Inl e))"
proof -
  have loop: "\<exists>e. parse_block_loop bc (IDENTIFIER key # toks0) = Inl e"
    if h: "block_step (bc, IDENTIFIER key # toks0) s1
           \<and> block_step\<^sup>*\<^sup>* s1 (bc2, IDENTIFIER key # OPERATOR w # rest)
           \<and> (w = ''='' \<or> w = ''{'')" for bc
  proof -
    from h have "has_key key (fst s1)" by (blast dest: block_step_binds)
    with h have k2: "has_key key bc2"
      using block_steps_keys [of s1 "(bc2, IDENTIFIER key # OPERATOR w # rest)" key]
      by simp
    from h have "parse_block_loop bc (IDENTIFIER key # toks0)
                   = parse_block_loop bc2 (IDENTIFIER key # OPERATOR w # rest)"
      using block_step_loop [of "(bc, IDENTIFIER key # toks0)" s1]
            block_steps_loop [of s1 "(bc2, IDENTIFIER key # OPERATOR w # rest)"]
      by simp
    with rebinding_fails [OF k2, of w rest] h show ?thesis by auto
  qed
  have root: "\<exists>e. parse (IDENTIFIER ''juego'' # STRING name # OPERATOR ''{''
                       # IDENTIFIER key # toks0) = Inl e"
    if h: "block_step ([], IDENTIFIER key # toks0) s1
           \<and> block_step\<^sup>*\<^sup>* s1 (bc2, IDENTIFIER key # OPERATOR w # rest)
           \<and> (w = ''='' \<or> w = ''{'')"
  proof -
    from loop [OF h] obtain e where "parse_block_loop [] (IDENTIFIER key # toks0) = Inl e"
      by blast
    then have "parse (IDENTIFIER ''juego'' # STRING name # OPERATOR ''{''
                       # IDENTIFIER key # toks0) = Inl e"
      by (simp add: parse_def del: parse_block_loop.simps)
    then show ?thesis by blast
  qed
  have tbl: "unique_table table" if "parse toks = Inr table"
  proof -
    have "unique_table []" by (simp add: unique_table_def keys_def)
    with that show ?thesis unfolding parse_def by (blast intro: parse_loop_unique)
  qed
  from loop root tbl map_rebinding_fails show ?thesis by blast
qed

theorem keys_unique_or_parse_fails_witness:
  "block_step ([], [IDENTIFIER ''a'', OPERATOR ''='', NUMBER (NInt 1), IDENTIFIER ''b'',
                    OPERATOR ''{'', OPERATOR ''}'', IDENTIFIER ''a'', OPERATOR ''{'',
                    OPERATOR ''}'', OPERATOR ''}''])
              ([(''a'', VInt 1)], [IDENTIFIER ''b'', OPERATOR ''{'', OPERATOR ''}'',
                    IDENTIFIER ''a'', OPERATOR ''{'', OPERATOR ''}'', OPERATOR ''}''])
   \<and> block_step\<^sup>*\<^sup>*
              ([(''a'', VInt 1)], [IDENTIFIER ''b'', OPERATOR ''{'', OPERATOR ''}'',
                    IDENTIFIER ''a'', OPERATOR ''{'', OPERATOR ''}'', OPERATOR ''}''])
              ([(''a'', VInt 1), (''b'', VDict [])],
               [IDENTIFIER ''a'', OPERATOR ''{'', OPERATOR ''}'', OPERATOR ''}''])
   \<and> (\<exists>e. parse [IDENTIFIER ''juego'', STRING ''g'', OPERATOR ''{'',
                   IDENTIFIER ''a'', OPERATOR ''='', NUMBER (NInt 1), IDENTIFIER ''b'',
                   OPERATOR ''{'', OPERATOR ''}'', IDENTIFIER ''a'', OPERATOR ''{'',
                   OPERATOR ''}'', OPERATOR ''}''] = Inl e)
   \<and> parse [IDENTIFIER ''juego'', STRING ''g'', OPERATOR ''{'', IDENTIFIER ''m'',
              OPERATOR ''='', OPERATOR ''{'', STRING ''k'', OPERATOR '':'', NUMBER (NInt 1),
              OPERATOR ''}'', OPERATOR ''}'']
       = Inr [(''g'', [(''m'', VDict [(''k'', VInt 1)])])]
   \<and> unique_table [(''g'', [(''m'', VDict [(''k'', VInt 1)])])]
   \<and> (\<exists>e. parse_map_loop [(''k'', VInt 1)]
              [IDENTIFIER ''k'', OPERATOR ''='', NUMBER (NInt 2), OPERATOR ''}''] = Inl e)"
proof -
  let ?t2 = "[IDENTIFIER ''a'', OPERATOR ''{'', OPERATOR ''}'', OPERATOR ''}'']"
  let ?t1 = "IDENTIFIER ''b'' # OPERATOR ''{'' # OPERATOR ''}'' # ?t2"
  let ?t0 = "OPERATOR ''='' # NUMBER (NInt 1) # ?t1"
  have s1: "block_step ([], IDENTIFIER ''a'' # ?t0) (dict_set ''a'' (VInt 1) [], ?t1)"
    by (rule block_step.step_assignment) (simp_all add: has_key_def keys_def)
  have s2: "block_step (dict_set ''a'' (VInt 1) [], ?t1)
              (dict_set ''b'' (VDict []) (dict_set ''a'' (VInt 1) []), ?t2)"
    by (rule block_step.step_section) (simp_all add: has_key_def keys_def)
  then have s2': "block_step\<^sup>*\<^sup>* (dict_set ''a'' (VInt 1) [], ?t1)
              (dict_set ''b'' (VDict []) (dict_set ''a'' (VInt 1) []), ?t2)"
    by blast
  have fail: "\<exists>e. parse (IDENTIFIER ''juego'' # STRING ''g'' # OPERATOR ''{''
                       # IDENTIFIER ''a'' # ?t0) = Inl e"
    using s1 s2'
      keys_unique_or_parse_fails [where key = "''a''" and ?toks0.0 = ?t0
        and ?s1.0 = "(dict_set ''a'' (VInt 1) [], ?t1)"
        and ?bc2.0 = "dict_set ''b'' (VDict []) (dict_set ''a'' (VInt 1) [])"
        and w = "''{''" and rest = "[OPERATOR ''}'', OPERATOR ''}'']" and name = "''g''"]
    by blast
  let ?ok = "[IDENTIFIER ''juego'', STRING ''g'', OPERATOR ''{'', IDENTIFIER ''m'',
              OPERATOR ''='', OPERATOR ''{'', STRING ''k'', OPERATOR '':'', NUMBER (NInt 1),
              OPERATOR ''}'', OPERATOR ''}'']"
  have ok: "parse ?ok = Inr [(''g'', [(''m'', VDict [(''k'', VInt 1)])])]"
    by (simp add: parse_def has_key_def keys_def)
  then have uniq: "unique_table [(''g'', [(''m'', VDict [(''k'', VInt 1)])])]"
    using keys_unique_or_parse_fails [where toks = ?ok] by blast
  have "has_key ''k'' [(''k'', VInt 1)]" "map_key (IDENTIFIER ''k'') = Some ''k''"
    by (simp_all add: has_key_def keys_def)
  then have mp: "\<exists>e. parse_map_loop [(''k'', VInt 1)]
              [IDENTIFIER ''k'', OPERATOR ''='', NUMBER (NInt 2), OPERATOR ''}''] = Inl e"
    using keys_unique_or_parse_fails [where k = "''k''" and mp = "[(''k'', VInt 1)]"
        and t = "IDENTIFIER ''k''"]
    by blast
  from s1 s2' fail ok uniq mp show ?thesis by simp
qed

text \<open>
  C7. A bare identifier other than \<^verbatim>\<open>verdadero\<close> and \<^verbatim>\<open>falso\<close> where a list expects an
  element raises the semantic error (\<^verbatim>\<open>NameError\<close>), whatever the list holds so far; the
  same identifier where an assignment or a map pair expects its value raises the generic
  \<^verbatim>\<open>SyntaxError\<close> for an unexpected value. Both abort the whole parse.
\<close>

theorem bare_identifier_error_class:
  "x \<noteq> ''verdadero'' \<and> x \<noteq> ''falso'' \<longrightarrow>
     parse_list_loop lst (IDENTIFIER x # rest) = Inl (NameError x)
   \<and> parse_value (OPERATOR ''['' # IDENTIFIER x # rest) = Inl (NameError x)
   \<and> parse_value (IDENTIFIER x # rest) = Inl (SyntaxError Unexpected_value)
   \<and> parse_block_loop block_content (IDENTIFIER key # OPERATOR ''='' # IDENTIFIER x # rest)
       = Inl (SyntaxError Unexpected_value)
   \<and> (map_key t = Some k \<and> (sep = OPERATOR '':'' \<or> sep = OPERATOR ''='') \<longrightarrow>
        parse_map_loop mp (t # sep # IDENTIFIER x # rest)
          = Inl (SyntaxError Unexpected_value))
   \<and> parse (IDENTIFIER ''juego'' # STRING name # OPERATOR ''{'' # IDENTIFIER key
              # OPERATOR ''='' # OPERATOR ''['' # IDENTIFIER x # rest)
       = Inl (NameError x)
   \<and> parse (IDENTIFIER ''juego'' # STRING name # OPERATOR ''{'' # IDENTIFIER key
              # OPERATOR ''='' # IDENTIFIER x # rest)
       = Inl (SyntaxError Unexpected_value)"
proof (intro impI)
  assume "x \<noteq> ''verdadero'' \<and> x \<noteq> ''falso''"
  then have nb: "\<not> is_bool_word x" by (simp add: is_bool_word_def)
  have a: "parse_list_loop lst (IDENTIFIER x # rest) = Inl (NameError x)" for lst
    using nb by simp
  have b: "parse_value (OPERATOR ''['' # IDENTIFIER x # rest) = Inl (NameError x)"
    using a by simp
  have c: "parse_value (IDENTIFIER x # rest) = Inl (SyntaxError Unexpected_value)"
    using nb by simp
  have d: "parse_block_loop bc (IDENTIFIER key # OPERATOR ''='' # IDENTIFIER x # rest)
             = Inl (SyntaxError Unexpected_value)" for bc
    using c by simp
  have e: "parse_map_loop mp (t # sep # IDENTIFIER x # rest)
             = Inl (SyntaxError Unexpected_value)"
    if "map_key t = Some k" "sep = OPERATOR '':'' \<or> sep = OPERATOR ''=''"
    using that c by (cases t) auto
  have f: "parse (IDENTIFIER ''juego'' # STRING name # OPERATOR ''{'' # IDENTIFIER key
              # OPERATOR ''='' # OPERATOR ''['' # IDENTIFIER x # rest) = Inl (NameError x)"
    using a by (simp add: parse_def)
  have g: "parse (IDENTIFIER ''juego'' # STRING name # OPERATOR ''{'' # IDENTIFIER key
              # OPERATOR ''='' # IDENTIFIER x # rest) = Inl (SyntaxError Unexpected_value)"
    using c by (simp add: parse_def)
  from a b c d e f g show "parse_list_loop lst (IDENTIFIER x # rest) = Inl (NameError x)
   \<and> parse_value (OPERATOR ''['' # IDENTIFIER x # rest) = Inl (NameError x)
   \<and> parse_value (IDENTIFIER x # rest) = Inl (SyntaxError Unexpected_value)
   \<and> parse_block_loop block_content (IDENTIFIER key # OPERATOR ''='' # IDENTIFIER x # rest)
       = Inl (SyntaxError Unexpected_value)
   \<and> (map_key t = Some k \<and> (sep = OPERATOR '':'' \<or> sep = OPERATOR ''='') \<longrightarrow>
        parse_map_loop mp (t # sep # IDENTIFIER x # rest)
          = Inl (SyntaxError Unexpected_value))
   \<and> parse (IDENTIFIER ''juego'' # STRING name # OPERATOR ''{'' # IDENTIFIER key
              # OPERATOR ''='' # OPERATOR ''['' # IDENTIFIER x # rest)
       = Inl (NameError x)
   \<and> parse (IDENTIFIER ''juego'' # STRING name # OPERATOR ''{'' # IDENTIFIER key
              # OPERATOR ''='' # IDENTIFIER x # rest)
       = Inl (SyntaxError Unexpected_value)" by blast
qed

theorem bare_identifier_error_class_witness:
  "parse_list_loop [VInt 1]
     [IDENTIFIER ''foo'', OPERATOR '','', NUMBER (NInt 3), OPERATOR '']'', OPERATOR ''}'']
     = Inl (NameError ''foo'')
   \<and> parse [IDENTIFIER ''juego'', STRING ''g'', OPERATOR ''{'', IDENTIFIER ''lista'',
             OPERATOR ''='', OPERATOR ''['', IDENTIFIER ''foo'', OPERATOR '','',
             NUMBER (NInt 3), OPERATOR '']'', OPERATOR ''}'']
       = Inl (NameError ''foo'')
   \<and> parse [IDENTIFIER ''juego'', STRING ''g'', OPERATOR ''{'', IDENTIFIER ''lista'',
             OPERATOR ''='', IDENTIFIER ''foo'', OPERATOR '','',
             NUMBER (NInt 3), OPERATOR '']'', OPERATOR ''}'']
       = Inl (SyntaxError Unexpected_value)
   \<and> parse_map_loop [] [STRING ''k'', OPERATOR '':'', IDENTIFIER ''foo'', OPERATOR '','',
             NUMBER (NInt 3), OPERATOR '']'', OPERATOR ''}'']
       = Inl (SyntaxError Unexpected_value)"
proof -
  have h: "''foo'' \<noteq> ''verdadero'' \<and> ''foo'' \<noteq> ''falso''" by simp
  have m: "map_key (STRING ''k'') = Some ''k''
           \<and> (OPERATOR '':'' = OPERATOR '':'' \<or> OPERATOR '':'' = OPERATOR ''='')"
    by simp
  from h m
    bare_identifier_error_class [where x = "''foo''" and lst = "[VInt 1]"
      and rest = "[OPERATOR '','', NUMBER (NInt 3), OPERATOR '']'', OPERATOR ''}'']"
      and name = "''g''" and key = "''lista''" and t = "STRING ''k''" and k = "''k''"
      and sep = "OPERATOR '':''" and mp = "[]"]
  show ?thesis by blast
qed

subsection \<open>Validator\<close>

lemma map_of_has_key: "map_of d k = Some v \<Longrightarrow> has_key k d"
  by (auto simp: has_key_def keys_def dest: map_of_SomeD intro: rev_image_eqI)

lemma has_key_map_of: "has_key k d \<Longrightarrow> \<exists>v. map_of d k = Some v"
  by (cases "map_of d k") (auto simp: has_key_def keys_def map_of_eq_None_iff)

lemma has_key_dict_index: "has_key k d \<Longrightarrow> \<exists>v. dict_index d k = Inr v"
  by (cases "map_of d k") (auto simp: dict_index_def has_key_def keys_def map_of_eq_None_iff)

lemma dict_index_Some: "map_of d k = Some v \<Longrightarrow> dict_index d k = Inr v"
  by (simp add: dict_index_def)







lemma py_index_dict: "py_index (VDict d) k = dict_index d k"
  by (simp add: py_index_def)

lemma tetris_opcionales_step:
  "tetris_opcionales (VDict vel) (opt # opts) =
     (if has_key opt vel \<and> \<not> is_int_strict (map_of vel opt)
      then Inr (False, ''Tetris: velocidad.'' @ opt @ '' debe ser entero'')
      else tetris_opcionales (VDict vel) opts)"
proof (cases "has_key opt vel")
  case False
  then show ?thesis by (simp add: py_contains_def)
next
  case True
  then obtain v where "map_of vel opt = Some v" by (blast dest: has_key_map_of)
  with True show ?thesis
    by (simp add: py_contains_def py_index_dict dict_index_def)
qed




lemma validate_tetris_blocks:
  assumes "map_of cfg ''rejilla'' = Some (VDict rej)"
    and "map_of cfg ''velocidad'' = Some (VDict vel)"
    and "map_of cfg ''puntuacion'' = Some (VDict pun)"
  shows "validate_tetris cfg =
           (if \<not> int_gt0 (map_of rej ''ancho'')
            then Inr (False, ''Tetris: rejilla.ancho debe ser entero > 0'')
            else if \<not> int_gt0 (map_of rej ''alto'')
            then Inr (False, ''Tetris: rejilla.alto debe ser entero > 0'')
            else if \<not> int_gt0 (map_of vel ''gravedad_ms'')
            then Inr (False, ''Tetris: velocidad.gravedad_ms debe ser entero > 0'')
            else (case map_of pun ''por_linea'' of
                    Some (VDict pl) \<Rightarrow>
                      tetris_por_linea pl (VDict vel) [''1'', ''2'', ''3'', ''4'']
                  | _ \<Rightarrow> Inr (False, ''Tetris: puntuacion.por_linea debe ser un mapa'')))"
  using assms map_of_has_key [OF assms(1)] map_of_has_key [OF assms(2)]
    map_of_has_key [OF assms(3)]
  by (simp add: validate_tetris_def dict_index_Some py_get_def
           del: tetris_por_linea.simps)



lemma py_get_not_dict: "\<forall>d. obj \<noteq> VDict d \<Longrightarrow> py_get obj k = Inl AttributeError"
  by (cases obj) (simp_all add: py_get_def)

lemma validate_snake_scalar_rejilla:
  assumes "has_key ''rejilla'' cfg" "has_key ''velocidad'' cfg" "has_key ''controles'' cfg"
    and "\<forall>d. map_of cfg ''rejilla'' \<noteq> Some (VDict d)"
  shows "validate_snake cfg = Inl AttributeError"
proof -
  from assms(1-3) obtain rej vel con where
    i: "dict_index cfg ''rejilla'' = Inr rej" "dict_index cfg ''velocidad'' = Inr vel"
       "dict_index cfg ''controles'' = Inr con"
    by (blast dest: has_key_dict_index)
  with assms(4) have "\<forall>d. rej \<noteq> VDict d"
    by (auto simp: dict_index_def split: option.splits)
  then have "py_get rej ''ancho'' = Inl AttributeError" by (rule py_get_not_dict)
  with assms(1-3) i show ?thesis by (simp add: validate_snake_def)
qed



lemma py_get_dict: "py_get (VDict d) k = Inr (map_of d k)"
  by (simp add: py_get_def)

lemma validate_snake_shape:
  "(\<exists>msg. validate_snake cfg = Inr (False, msg)) \<or>
   validate_snake cfg = Inl AttributeError \<or>
   (\<exists>rej vel con. map_of cfg ''rejilla'' = Some (VDict rej) \<and>
      map_of cfg ''velocidad'' = Some (VDict vel) \<and>
      map_of cfg ''controles'' = Some (VDict con))"
proof (cases "has_key ''rejilla'' cfg \<and> has_key ''velocidad'' cfg \<and> has_key ''controles'' cfg")
  case False
  then show ?thesis by (auto simp: validate_snake_def Let_def)
next
  case True
  then obtain rej vel con where
    i: "map_of cfg ''rejilla'' = Some rej" "map_of cfg ''velocidad'' = Some vel"
       "map_of cfg ''controles'' = Some con"
    by (blast dest: has_key_map_of)
  show ?thesis
  proof (cases "\<exists>d. rej = VDict d")
    case False
    with True i have "validate_snake cfg = Inl AttributeError"
      by (intro validate_snake_scalar_rejilla) auto
    then show ?thesis by blast
  next
    case True
    then obtain rd where rd: "rej = VDict rd" by blast
    show ?thesis
    proof (cases "\<exists>d. vel = VDict d")
      case False
      then have pv: "py_get vel ''tick_ms'' = Inl AttributeError"
        by (intro py_get_not_dict) auto
      have "(\<exists>msg. validate_snake cfg = Inr (False, msg)) \<or>
            validate_snake cfg = Inl AttributeError"
        using i rd map_of_has_key [OF i(1)] map_of_has_key [OF i(2)] map_of_has_key [OF i(3)]
        by (simp add: validate_snake_def dict_index_Some py_get_dict pv)
      then show ?thesis by blast
    next
      case True
      then obtain vd where vd: "vel = VDict vd" by blast
      show ?thesis
      proof (cases "\<exists>d. con = VDict d")
        case False
        then have pc: "py_get con k = Inl AttributeError" for k
          by (intro py_get_not_dict) auto
        have "(\<exists>msg. validate_snake cfg = Inr (False, msg)) \<or>
              validate_snake cfg = Inl AttributeError"
          using i rd vd map_of_has_key [OF i(1)] map_of_has_key [OF i(2)]
            map_of_has_key [OF i(3)]
          by (simp add: validate_snake_def dict_index_Some py_get_dict pc)
        then show ?thesis by blast
      next
        case True
        with i rd vd show ?thesis by auto
      qed
    qed
  qed
qed










definition is_block :: "val \<Rightarrow> bool" where
  "is_block v = (case v of VDict d \<Rightarrow> True | _ \<Rightarrow> False)"

definition sections_are_blocks :: "string list \<Rightarrow> dict \<Rightarrow> bool" where
  "sections_are_blocks names cfg =
     list_all (\<lambda>k. case map_of cfg k of None \<Rightarrow> True | Some v \<Rightarrow> is_block v) names"

definition game_sections :: "string \<Rightarrow> string list" where
  "game_sections game_name =
     (if game_name = ''snake'' then [''rejilla'', ''velocidad'', ''controles'']
      else if game_name = ''tetris'' then [''rejilla'', ''velocidad'', ''puntuacion'']
      else [])"

lemma snake_controles_returns:
  "\<exists>ok msg. snake_controles (VDict con) ks = Inr (ok, msg)"
  by (induction ks) (auto simp: py_get_dict)

lemma tetris_opcionales_returns:
  "\<exists>ok msg. tetris_opcionales (VDict vel) opts = Inr (ok, msg)"
  by (induction opts)
     (auto simp: tetris_opcionales_step simp del: tetris_opcionales.simps(2))

lemma tetris_por_linea_returns:
  "\<exists>ok msg. tetris_por_linea pl (VDict vel) ks = Inr (ok, msg)"
  using tetris_opcionales_returns [of vel "[''soft_drop_ms'', ''lock_delay_ms'']"]
  by (induction ks) (auto simp del: tetris_opcionales.simps(2))

lemma validate_snake_returns:
  assumes "sections_are_blocks [''rejilla'', ''velocidad'', ''controles''] cfg"
  shows "\<exists>ok msg. validate_snake cfg = Inr (ok, msg)"
proof -
  consider (no) m where "validate_snake cfg = Inr (False, m)"
    | (raise) "validate_snake cfg = Inl AttributeError"
         "\<not> (\<exists>m. validate_snake cfg = Inr (False, m))"
    | (blocks) rej vel con where "map_of cfg ''rejilla'' = Some (VDict rej)"
        "map_of cfg ''velocidad'' = Some (VDict vel)"
        "map_of cfg ''controles'' = Some (VDict con)"
    using validate_snake_shape [of cfg] by blast
  then show ?thesis
  proof cases
    case no
    then show ?thesis by blast
  next
    case blocks
    with map_of_has_key [OF blocks(1)] map_of_has_key [OF blocks(2)]
      map_of_has_key [OF blocks(3)]
      snake_controles_returns [of con "[''arriba'', ''abajo'', ''izquierda'', ''derecha'']"]
    show ?thesis
      by (auto simp: validate_snake_def dict_index_Some py_get_dict
               simp del: snake_controles.simps)
  next
    case raise
    have keys: "has_key ''rejilla'' cfg \<and> has_key ''velocidad'' cfg \<and> has_key ''controles'' cfg"
      using raise by (auto simp: validate_snake_def Let_def split: if_splits)
    then obtain rej vel con where
      i: "map_of cfg ''rejilla'' = Some rej" "map_of cfg ''velocidad'' = Some vel"
         "map_of cfg ''controles'' = Some con"
      by (blast dest: has_key_map_of)
    with assms obtain rd vd cd where "rej = VDict rd" "vel = VDict vd" "con = VDict cd"
      by (auto simp: sections_are_blocks_def is_block_def split: val.splits)
    with i keys raise(1)
      snake_controles_returns [of cd "[''arriba'', ''abajo'', ''izquierda'', ''derecha'']"]
    show ?thesis
      by (auto simp: validate_snake_def dict_index_Some py_get_dict
               simp del: snake_controles.simps split: if_splits)
  qed
qed

lemma validate_tetris_returns:
  assumes "sections_are_blocks [''rejilla'', ''velocidad'', ''puntuacion''] cfg"
  shows "\<exists>ok msg. validate_tetris cfg = Inr (ok, msg)"
proof (cases "has_key ''rejilla'' cfg \<and> has_key ''velocidad'' cfg \<and> has_key ''puntuacion'' cfg")
  case False
  then show ?thesis by (auto simp: validate_tetris_def Let_def)
next
  case True
  then obtain rej vel pun where
    i: "map_of cfg ''rejilla'' = Some rej" "map_of cfg ''velocidad'' = Some vel"
       "map_of cfg ''puntuacion'' = Some pun"
    by (blast dest: has_key_map_of)
  with assms obtain rd vd pd where d: "rej = VDict rd" "vel = VDict vd" "pun = VDict pd"
    by (auto simp: sections_are_blocks_def is_block_def split: val.splits)
  from i d tetris_por_linea_returns [of _ vd "[''1'', ''2'', ''3'', ''4'']"] show ?thesis
    by (auto simp: validate_tetris_blocks [of cfg rd vd pd]
             simp del: tetris_por_linea.simps split: option.splits val.splits)
qed

lemma validate_game_returns:
  "sections_are_blocks (game_sections game_name) cfg \<Longrightarrow>
   \<exists>ok msg. validate_game game_name cfg = Inr (ok, msg)"
  using validate_snake_returns [of cfg] validate_tetris_returns [of cfg]
  by (auto simp: validate_game_def game_sections_def)

lemma validate_all_returns:
  "list_all (\<lambda>(game_name, cfg). sections_are_blocks (game_sections game_name) cfg) table \<Longrightarrow>
   \<exists>results. validate_all table = Inr results"
proof (induction table)
  case Nil
  show ?case by simp
next
  case (Cons entry table)
  obtain game_name cfg where e: "entry = (game_name, cfg)" by (cases entry)
  with Cons.prems obtain ok msg where "validate_game game_name cfg = Inr (ok, msg)"
    using validate_game_returns [of game_name cfg] by auto
  moreover from Cons obtain results where "validate_all table = Inr results" by auto
  ultimately show ?case using e by simp
qed

lemma validate_all_one_record_each:
  "validate_all table = Inr results \<Longrightarrow> map juego results = keys table"
proof (induction table arbitrary: results)
  case Nil
  then show ?case by (simp add: keys_def)
next
  case (Cons entry table)
  obtain game_name cfg where e: "entry = (game_name, cfg)" by (cases entry)
  with Cons.prems obtain ok msg rest where
    "validate_all table = Inr rest"
    "results = \<lparr>juego = game_name, valido = ok, mensaje = msg\<rparr> # rest"
    by (auto split: sum.splits)
  with Cons.IH [of rest] e show ?case by (simp add: keys_def)
qed

text \<open>
  C1. The validator raises on a parsed table: a \<^verbatim>\<open>snake\<close> entity whose three sections
  are assignments of scalars parses, and \<^verbatim>\<open>validate_all\<close> then raises
  \<^verbatim>\<open>AttributeError\<close> at \<^verbatim>\<open>rej.get('ancho')\<close> instead of returning a record.
\<close>

theorem validate_all_raises_on_scalar_section:
  \<open>parse_source ''juego "snake" { rejilla = 1 velocidad = 2 controles = 3 }''
     = Inr [(''snake'', [(''rejilla'', VInt 1), (''velocidad'', VInt 2),
                         (''controles'', VInt 3)])]
   \<and> validate_all [(''snake'', [(''rejilla'', VInt 1), (''velocidad'', VInt 2),
                                 (''controles'', VInt 3)])]
     = Inl AttributeError\<close>
  by code_simp

subsection \<open>Lexer\<close>

text \<open>
  The conversion of an integer literal is the only step of the tokenizer that can raise.
  \<open>too_long\<close> holds of a match whose conversion raises: the number group decides the
  token, has no \<^verbatim>\<open>.\<close> and has more than 4300 digits. \<open>emitted\<close>, \<open>scanned\<close>, \<open>line_tokens\<close>
  and \<open>source_tokens\<close> are the tokens of a match, of a text, of a line and of a source
  with the value of the digits for every integer literal; they are the result of the
  tokenizer whenever no match is too long.
\<close>

definition too_long :: "groups \<Rightarrow> bool" where
  "too_long grp =
     (case grp of (g0, g1, g2, g3) \<Rightarrow>
        g0 = [] \<and> g1 \<noteq> [] \<and> CHR ''.'' \<notin> set g1 \<and> max_str_digits < length g1)"

definition overlong_text :: "string \<Rightarrow> bool" where
  "overlong_text line = list_ex too_long (findall line)"

definition overlong_line :: "string \<Rightarrow> bool" where
  "overlong_line line0 = overlong_text (strip (strip_inline_comments (rstrip_nl line0)))"

definition overlong_source :: "string \<Rightarrow> bool" where
  "overlong_source source = list_ex overlong_line (splitlines source)"

definition emitted :: "groups \<Rightarrow> token list" where
  "emitted grp =
     (case grp of (g0, g1, g2, g3) \<Rightarrow>
        if g0 \<noteq> [] then [STRING g0]
        else if g1 \<noteq> [] then
          (if CHR ''.'' \<in> set g1 then [NUMBER (NFloat g1)]
           else [NUMBER (NInt (int_of_digits g1))])
        else if g2 \<noteq> [] then [OPERATOR g2]
        else if g3 \<noteq> [] then [IDENTIFIER g3]
        else [])"

definition scanned :: "string \<Rightarrow> token list" where
  "scanned line = concat (map emitted (findall line))"

definition line_tokens :: "string \<Rightarrow> token list" where
  "line_tokens line0 =
     (let line1 = rstrip_nl line0;
          line2 = strip_inline_comments line1;
          line3 = strip line2
      in if line3 = [] then [] else scanned line3)"

fun lines_tokens :: "string list \<Rightarrow> token list" where
  "lines_tokens [] = []"
| "lines_tokens (line # lines) = line_tokens line @ lines_tokens lines"

definition source_tokens :: "string \<Rightarrow> token list" where
  "source_tokens source = lines_tokens (splitlines source)"

lemma classify_emitted:
  "classify grp = (if too_long grp then Inl ValueError else Inr (emitted grp))"
  by (cases grp) (auto simp: classify_def emitted_def too_long_def py_int_def)

lemma classify_all_emitted:
  "classify_all grps =
     (if list_ex too_long grps then Inl ValueError else Inr (concat (map emitted grps)))"
  by (induction grps) (auto simp: classify_emitted)

lemma scan_line_scanned:
  "scan_line line = (if overlong_text line then Inl ValueError else Inr (scanned line))"
  by (simp add: scan_line_def scanned_def overlong_text_def classify_all_emitted)

lemma tokenize_line_tokens:
  "tokenize_line line = (if overlong_line line then Inl ValueError else Inr (line_tokens line))"
  by (auto simp: tokenize_line_def line_tokens_def overlong_line_def Let_def scan_line_scanned
        overlong_text_def)

lemma tokenize_lines_tokens:
  "tokenize_lines lines =
     (if list_ex overlong_line lines then Inl ValueError else Inr (lines_tokens lines))"
  by (induction lines) (auto simp: tokenize_line_tokens)

lemma tokenize_tokens:
  "tokenize source =
     (if overlong_source source then Inl ValueError else Inr (source_tokens source))"
  by (simp add: tokenize_def source_tokens_def overlong_source_def tokenize_lines_tokens)

lemma parse_source_tokens:
  "\<not> overlong_source source \<Longrightarrow> parse_source source = parse (source_tokens source)"
  by (simp add: parse_source_def tokenize_tokens)










lemma until_quote_rest_subset:
  "until_quote cs = Some (body, rest) \<Longrightarrow> set rest \<subseteq> set cs"
  by (induction cs arbitrary: body rest) (auto split: if_splits option.splits)


































































text \<open>
  C4 as the claim states it fails: the three words are accepted as an assignment key, as
  a section name and as a map key.
\<close>

theorem keyword_as_key_counterexample:
  \<open>parse (source_tokens ''juego "g" { juego = 1 verdadero { } m = { falso : 2 } }'')
     = Inr [(''g'', [(''juego'', VInt 1), (''verdadero'', VDict []),
                     (''m'', VDict [(''falso'', VInt 2)])])]\<close>
  by code_simp

text \<open>
  C4, amended. \<^verbatim>\<open>juego\<close> is required as the first token of every declaration, and
  \<^verbatim>\<open>verdadero\<close> and \<^verbatim>\<open>falso\<close> are read as Booleans where a value is expected. The parser
  reserves the three words nowhere else: any identifier, these included, is accepted as
  an assignment key, as a section name and as a map key, and is bound like any other key.
\<close>

theorem keywords_only_in_their_role:
  "(w \<noteq> ''juego'' \<longrightarrow> parse_loop table (IDENTIFIER w # rest) = Inl (SyntaxError Expected_juego))
   \<and> parse_value (IDENTIFIER ''verdadero'' # rest) = Inr (VBool True, rest)
   \<and> parse_value (IDENTIFIER ''falso'' # rest) = Inr (VBool False, rest)
   \<and> (\<not> has_key w bc \<longrightarrow>
        parse_block_loop bc (IDENTIFIER w # OPERATOR ''='' # NUMBER n # rest)
          = parse_block_loop (dict_set w (val_of_number n) bc) rest
      \<and> parse_block_loop bc (IDENTIFIER w # OPERATOR ''{'' # OPERATOR ''}'' # rest)
          = parse_block_loop (dict_set w (VDict []) bc) rest)
   \<and> (\<not> has_key w mp \<longrightarrow>
        parse_map_loop mp (IDENTIFIER w # OPERATOR '':'' # NUMBER n # rest)
          = parse_map_loop (dict_set w (val_of_number n) mp) rest)
   \<and> parse [IDENTIFIER ''juego'', STRING name, OPERATOR ''{'', IDENTIFIER w, OPERATOR ''='',
             NUMBER n, OPERATOR ''}'']
        = Inr [(name, [(w, val_of_number n)])]
   \<and> parse [IDENTIFIER ''juego'', STRING name, OPERATOR ''{'', IDENTIFIER w, OPERATOR ''{'',
             OPERATOR ''}'', OPERATOR ''}'']
        = Inr [(name, [(w, VDict [])])]
   \<and> parse_value [OPERATOR ''{'', IDENTIFIER w, OPERATOR '':'', NUMBER n, OPERATOR ''}'']
        = Inr (VDict [(w, val_of_number n)], [])"
  by (simp add: parse_def is_bool_word_def has_key_def keys_def)

theorem keywords_only_in_their_role_witness:
  "parse_loop [] [IDENTIFIER ''verdadero'', STRING ''g''] = Inl (SyntaxError Expected_juego)
   \<and> parse_block_loop [] [IDENTIFIER ''juego'', OPERATOR ''='', NUMBER (NInt 1), OPERATOR ''}'']
        = parse_block_loop (dict_set ''juego'' (val_of_number (NInt 1)) []) [OPERATOR ''}'']
   \<and> parse_map_loop [] [IDENTIFIER ''juego'', OPERATOR '':'', NUMBER (NInt 1), OPERATOR ''}'']
        = parse_map_loop (dict_set ''juego'' (val_of_number (NInt 1)) []) [OPERATOR ''}'']
   \<and> parse [IDENTIFIER ''juego'', STRING ''g'', OPERATOR ''{'', IDENTIFIER ''juego'',
             OPERATOR ''='', NUMBER (NInt 1), OPERATOR ''}'']
        = Inr [(''g'', [(''juego'', val_of_number (NInt 1))])]"
proof -
  have 1: "''verdadero'' \<noteq> ''juego''" by simp
  have 2: "\<not> has_key ''juego'' ([] :: dict)" by (simp add: has_key_def keys_def)
  from 1 keywords_only_in_their_role [where w = "''verdadero''" and table = "[]"
      and rest = "[STRING ''g'']"]
  have a: "parse_loop [] [IDENTIFIER ''verdadero'', STRING ''g'']
             = Inl (SyntaxError Expected_juego)"
    by blast
  from 2 keywords_only_in_their_role [where w = "''juego''" and bc = "[]" and mp = "[]"
      and n = "NInt 1" and rest = "[OPERATOR ''}'']" and name = "''g''"]
  have "parse_block_loop [] [IDENTIFIER ''juego'', OPERATOR ''='', NUMBER (NInt 1), OPERATOR ''}'']
        = parse_block_loop (dict_set ''juego'' (val_of_number (NInt 1)) []) [OPERATOR ''}'']
   \<and> parse_map_loop [] [IDENTIFIER ''juego'', OPERATOR '':'', NUMBER (NInt 1), OPERATOR ''}'']
        = parse_map_loop (dict_set ''juego'' (val_of_number (NInt 1)) []) [OPERATOR ''}'']
   \<and> parse [IDENTIFIER ''juego'', STRING ''g'', OPERATOR ''{'', IDENTIFIER ''juego'',
             OPERATOR ''='', NUMBER (NInt 1), OPERATOR ''}'']
        = Inr [(''g'', [(''juego'', val_of_number (NInt 1))])]"
    by blast
  with a show ?thesis by blast
qed

text \<open>
  C2 as the claim states it fails: in the text of Scenario 3 \<^verbatim>\<open>por_linea {\<close> opens a
  section, and the section loop rejects the token \<^verbatim>\<open>1\<close>, which is a \<^verbatim>\<open>NUMBER\<close>.
\<close>

theorem scenario3_counterexample:
  \<open>parse (source_tokens ''juego "tetris" { rejilla { ancho=10 alto=20 } velocidad { gravedad_ms=500 } puntuacion { por_linea { 1:100, 2:300 3=500 "4"=800 } } }'')
     = Inl (SyntaxError Expected_identifier)\<close>
  by code_simp

text \<open>
  C2, amended. Written as an assignment and with its four keys quoted, the map parses,
  with mixed separators and optional commas, into keys that are strings, and the table
  passes the tetris rule set. A numeral is a \<^verbatim>\<open>NUMBER\<close> token, which the map loop rejects
  as a key, and keys of a section must be identifiers, so neither the unquoted keys nor
  the section form parses.
\<close>

theorem scenario3_as_map_assignment:
  \<open>parse (source_tokens ''juego "tetris" { rejilla { ancho=10 alto=20 } velocidad { gravedad_ms=500 } puntuacion { por_linea = { "1":100, "2":300 "3"=500 "4"=800 } } }'')
     = Inr [(''tetris'',
             [(''rejilla'', VDict [(''ancho'', VInt 10), (''alto'', VInt 20)]),
              (''velocidad'', VDict [(''gravedad_ms'', VInt 500)]),
              (''puntuacion'',
                 VDict [(''por_linea'',
                   VDict [(''1'', VInt 100), (''2'', VInt 300), (''3'', VInt 500),
                          (''4'', VInt 800)])])])]
   \<and> validate_all [(''tetris'',
             [(''rejilla'', VDict [(''ancho'', VInt 10), (''alto'', VInt 20)]),
              (''velocidad'', VDict [(''gravedad_ms'', VInt 500)]),
              (''puntuacion'',
                 VDict [(''por_linea'',
                   VDict [(''1'', VInt 100), (''2'', VInt 300), (''3'', VInt 500),
                          (''4'', VInt 800)])])])]
     = Inr [\<lparr>juego = ''tetris'', valido = True, mensaje = ''Tetris OK''\<rparr>]
   \<and> source_tokens ''1:100, 2:300 3=500 "4"=800''
     = [NUMBER (NInt 1), OPERATOR '':'', NUMBER (NInt 100), OPERATOR '','',
        NUMBER (NInt 2), OPERATOR '':'', NUMBER (NInt 300),
        NUMBER (NInt 3), OPERATOR ''='', NUMBER (NInt 500),
        STRING ''4'', OPERATOR ''='', NUMBER (NInt 800)]
   \<and> parse (source_tokens ''juego "tetris" { puntuacion { por_linea = { 1:100, 2:300 3=500 "4"=800 } } }'')
     = Inl (SyntaxError Invalid_map_key)
   \<and> parse (source_tokens ''juego "tetris" { puntuacion { por_linea { "1":100, "2":300 "3"=500 "4"=800 } } }'')
     = Inl (SyntaxError Expected_identifier)
   \<and> parse_map_loop mp (NUMBER n # rest) = Inl (SyntaxError Invalid_map_key)
   \<and> parse_block_loop bc (NUMBER n # rest) = Inl (SyntaxError Expected_identifier)
   \<and> parse_block_loop bc (STRING s # rest) = Inl (SyntaxError Expected_identifier)\<close>
proof -
  have general:
    "parse_map_loop mp (NUMBER n # rest) = Inl (SyntaxError Invalid_map_key)
     \<and> parse_block_loop bc (NUMBER n # rest) = Inl (SyntaxError Expected_identifier)
     \<and> parse_block_loop bc (STRING s # rest) = Inl (SyntaxError Expected_identifier)"
    by simp
  show ?thesis
    apply (intro conjI)
    subgoal by code_simp
    subgoal by code_simp
    subgoal by code_simp
    subgoal by code_simp
    subgoal by code_simp
    subgoal using general by blast
    subgoal using general by blast
    subgoal using general by blast
    done
qed

end
